theory Spec2Isabelle
  imports Main "HOL-Library.DAList" "HOL-Library.List_Lexorder" "HOL-Library.Char_ord"
    "HOL-Library.Multiset"
begin

section \<open>Values, dictionaries and errors\<close>

text \<open>
  The deal monitor of \<^verbatim>\<open>discord_bot.py\<close> works on Python dictionaries. A dictionary is an
  association list with unique keys (\<^typ>\<open>('k, 'v) alist\<close>): \<^const>\<open>DAList.lookup\<close> is
  \<^verbatim>\<open>d.get(k)\<close>, \<^const>\<open>DAList.update\<close> is \<^verbatim>\<open>d[k] = v\<close> (an existing key keeps its
  position, a new key goes to the end, as in Python) and \<^const>\<open>DAList.impl_of\<close> lists
  \<^verbatim>\<open>d.items()\<close> in insertion order.

  Three kinds of dictionary occur:
  \<^item> the raw listing that \<^verbatim>\<open>AmazonDealsScraper.parse_promotion\<close> returns, every value of
    which is a string (\<^verbatim>\<open>"N/A"\<close> when unknown);
  \<^item> the listing aggregated during one cycle, whose values are strings except for the list
    under \<^verbatim>\<open>"categories"\<close>;
  \<^item> the document of the \<^verbatim>\<open>deals\<close> collection, which also holds the two timestamps.
\<close>

datatype error =
  ScrapeError | ValueError | StoreError | KeyError | TypeError | HTTPException nat | SendError

type_synonym raw_deal = "(string, string) alist"

datatype aval = AStr string | ACats "string list"

type_synonym deal = "(string, aval) alist"

datatype pyval = PStr string | PList "string list" | PTime nat | PId nat

type_synonym document = "(string, pyval) alist"

text \<open>Python truthiness of a value of an aggregated listing (\<^verbatim>\<open>if value:\<close>).\<close>

fun truthy :: "aval \<Rightarrow> bool" where
  "truthy (AStr s) = (s \<noteq> [])"
| "truthy (ACats xs) = (xs \<noteq> [])"

text \<open>The elements that \<^verbatim>\<open>set(v)\<close> iterates over: a list gives its items, a string its characters.\<close>

fun elements :: "aval \<Rightarrow> string list" where
  "elements (ACats xs) = xs"
| "elements (AStr s) = map (\<lambda>c. [c]) s"

fun doc_val :: "aval \<Rightarrow> pyval" where
  "doc_val (AStr s) = PStr s"
| "doc_val (ACats xs) = PList xs"

text \<open>\<^verbatim>\<open>dict(deal)\<close>: the copy of a raw listing that becomes an aggregated listing.\<close>

lift_definition dict_of :: "raw_deal \<Rightarrow> deal" is "map (\<lambda>(k, v). (k, AStr v))"
  by (simp add: comp_def case_prod_unfold)

text \<open>The fields of an aggregated listing as they are written to a document (\<^verbatim>\<open>{**deal}\<close>).\<close>

lift_definition to_document :: "deal \<Rightarrow> document" is "map (\<lambda>(k, v). (k, doc_val v))"
  by (simp add: comp_def case_prod_unfold)

section \<open>Run aggregator: the per-cycle fold of \<^verbatim>\<open>scrape_and_process\<close>\<close>

text \<open>
  Lines 275-279: \<^verbatim>\<open>for field, value in deal.items()\<close>, skipping \<^verbatim>\<open>"categories"\<close> and
  storing a value only when it is truthy and not \<^verbatim>\<open>"N/A"\<close>.
\<close>

fun merge_fields :: "deal \<Rightarrow> (string \<times> string) list \<Rightarrow> deal" where
  "merge_fields stored [] = stored"
| "merge_fields stored ((field, v) # items) =
     (if field = ''categories'' then merge_fields stored items
      else if v \<noteq> [] \<and> v \<noteq> ''N/A'' then merge_fields (DAList.update field (AStr v) stored) items
      else merge_fields stored items)"

text \<open>Lines 270-279: the branch \<^verbatim>\<open>if stored:\<close>, a repeated observation of a key.\<close>

definition merge_observation :: "deal \<Rightarrow> string \<Rightarrow> raw_deal \<Rightarrow> deal" where
  "merge_observation stored category_name deal =
     (let categories_set =
            (case DAList.lookup stored ''categories'' of
               None \<Rightarrow> {}
             | Some v \<Rightarrow> set (elements v));
          stored' = DAList.update ''categories''
            (ACats (sorted_list_of_set (insert category_name categories_set))) stored
      in merge_fields stored' (DAList.impl_of deal))"

text \<open>Lines 281-285: the branch \<^verbatim>\<open>else:\<close>, the first observation of a key.\<close>

definition first_observation ::
  "string \<Rightarrow> string \<Rightarrow> string \<Rightarrow> string \<Rightarrow> raw_deal \<Rightarrow> deal" where
  "first_observation marketplace_id site_name base_url category_name deal =
     DAList.update ''base_url'' (AStr base_url)
       (DAList.update ''site'' (AStr site_name)
         (DAList.update ''marketplace_id'' (AStr marketplace_id)
           (DAList.update ''categories'' (ACats [category_name]) (dict_of deal))))"

text \<open>Lines 260-286: the body of \<^verbatim>\<open>for deal in scraper.deals\<close>.\<close>

definition deal_key :: "string \<Rightarrow> string \<Rightarrow> string \<Rightarrow> string" where
  "deal_key marketplace_id site_name asin = marketplace_id @ '':'' @ site_name @ '':'' @ asin"

definition collect_deal ::
  "string \<Rightarrow> string \<Rightarrow> string \<Rightarrow> (string, deal) alist \<Rightarrow> raw_deal \<Rightarrow> (string, deal) alist" where
  "collect_deal marketplace_id site_name base_url collected deal =
     (case DAList.lookup deal ''asin'' of
        None \<Rightarrow> collected
      | Some asin \<Rightarrow>
          if asin = [] \<or> asin = ''N/A'' then collected
          else
            let key = deal_key marketplace_id site_name asin;
                category_name =
                  (case DAList.lookup deal ''category'' of None \<Rightarrow> ''Unknown'' | Some c \<Rightarrow> c);
                fresh = first_observation marketplace_id site_name base_url category_name deal
            in (case DAList.lookup collected key of
                  None \<Rightarrow> DAList.update key fresh collected
                | Some stored \<Rightarrow>
                    if DAList.impl_of stored \<noteq> []
                    then DAList.update key (merge_observation stored category_name deal) collected
                    else DAList.update key fresh collected))"

fun collect_deals ::
  "string \<Rightarrow> string \<Rightarrow> string \<Rightarrow> (string, deal) alist \<Rightarrow> raw_deal list \<Rightarrow> (string, deal) alist" where
  "collect_deals marketplace_id site_name base_url collected [] = collected"
| "collect_deals marketplace_id site_name base_url collected (deal # deals) =
     collect_deals marketplace_id site_name base_url
       (collect_deal marketplace_id site_name base_url collected deal) deals"

text \<open>
  The scraper is an external collaborator, used in two steps. Lines 234-239 build
  \<^verbatim>\<open>AmazonDealsScraper(category, marketplace_id, base_url, site_name)\<close>; the constructor
  (\<^verbatim>\<open>main.py\<close>, lines 47-69) parses \<^verbatim>\<open>base_url\<close> with \<^verbatim>\<open>urlparse\<close>, which raises for a
  malformed URL. Lines 240-241 then call \<^verbatim>\<open>scraper.scrape()\<close>, which either raises or
  leaves the listings in \<^verbatim>\<open>scraper.deals\<close>. A scraper gives, for the four arguments, which
  of the three happens.
\<close>

datatype scrape_result =
  ConstructorRaises error | ScrapeRaises error | Scraped "raw_deal list"

type_synonym scraper = "string \<Rightarrow> string \<Rightarrow> string \<Rightarrow> string \<Rightarrow> scrape_result"

text \<open>
  Lines 233-288: \<^verbatim>\<open>for idx, category in enumerate(categories)\<close>. Only the call of
  \<^verbatim>\<open>scrape\<close> stands in the \<^verbatim>\<open>try\<close> of line 240: its exception is logged and the category
  skipped, while an exception of the constructor leaves the loop. The result is that
  exception, if any, with the listings collected so far.
\<close>

fun scrape_categories ::
  "scraper \<Rightarrow> string \<Rightarrow> string \<Rightarrow> string \<Rightarrow> (string, deal) alist \<Rightarrow> string list
     \<Rightarrow> error option \<times> (string, deal) alist" where
  "scrape_categories scrape marketplace_id site_name base_url collected [] = (None, collected)"
| "scrape_categories scrape marketplace_id site_name base_url collected (category # categories) =
     (case scrape category marketplace_id base_url site_name of
        ConstructorRaises exc \<Rightarrow> (Some exc, collected)
      | ScrapeRaises exc \<Rightarrow>
          scrape_categories scrape marketplace_id site_name base_url collected categories
      | Scraped deals \<Rightarrow>
          scrape_categories scrape marketplace_id site_name base_url
            (collect_deals marketplace_id site_name base_url collected deals) categories)"

text \<open>A site descriptor of the normalised configuration (\<^verbatim>\<open>normalize_config\<close> fills all five keys).\<close>

record site =
  cfg_name :: string
  cfg_base_url :: string
  cfg_marketplace_id :: string
  cfg_categories :: "string list"
  cfg_scrape_all :: bool

text \<open>\<^verbatim>\<open>AmazonDealsScraper.CATEGORIES\<close> of \<^verbatim>\<open>main.py\<close>; the euro sign is its three UTF-8 bytes.\<close>

definition CATEGORIES :: "string list" where
  "CATEGORIES =
     [''Featured Deals'', ''Trending Deals'', ''Lightning Deals'',
      ''Deals under 20'' @ [CHR 0xE2, CHR 0x82, CHR 0xAC],
      ''Amazon Devices'', ''Prime Exclusive'', ''Computer & Software'',
      ''TV, Movies & Home Cinema'', ''Fashion, Shoes & Bags'', ''Home & Kitchen'',
      ''Phone & Accessories'', ''Personal Care & Grooming'', ''Headphones, Speakers & Music'',
      ''Sports & Fitness'', ''Gaming & Accessories'', ''Pet products'', ''Beauty'',
      ''DIY & Tools'', ''Toys'', ''Baby'', ''Office & School Supplies'', ''Cameras'',
      ''Food & Drinks'', ''Watches & Jewellery'', ''Furniture'', ''Luggage & Backpack'',
      ''Car & Motorbike'', ''Garden & Outdoors'', ''Books'', ''Vouchers'', ''Outlet'']"

text \<open>Lines 209-288: \<^verbatim>\<open>for site_idx, site in enumerate(sites)\<close>; an exception that leaves
  the loop over the categories leaves this loop too.\<close>

fun scrape_sites ::
  "scraper \<Rightarrow> (string, deal) alist \<Rightarrow> site list \<Rightarrow> error option \<times> (string, deal) alist" where
  "scrape_sites scrape collected [] = (None, collected)"
| "scrape_sites scrape collected (s # sites) =
     (let site_name = cfg_name s;
          base_url = cfg_base_url s;
          marketplace_id = cfg_marketplace_id s;
          categories = (if cfg_scrape_all s then CATEGORIES else cfg_categories s)
      in if categories = [] then scrape_sites scrape collected sites
         else (case scrape_categories scrape marketplace_id site_name base_url collected
                      categories of
                 (Some exc, collected') \<Rightarrow> (Some exc, collected')
               | (None, collected') \<Rightarrow> scrape_sites scrape collected' sites))"

section \<open>The canonical store\<close>

text \<open>
  The \<^verbatim>\<open>deals\<close> collection is an external collaborator, used through \<^verbatim>\<open>find_one\<close>,
  \<^verbatim>\<open>insert_one\<close> and \<^verbatim>\<open>update_one\<close>. It is modelled from that contract: the collection
  maps the unique \<^verbatim>\<open>_id\<close> of a document to its other fields, in insertion order. Each of
  the three calls may raise; whether it does is decided by the caller's environment.
\<close>

type_synonym collection = "(pyval, document) alist"

datatype store_op = FindOne | InsertOne | UpdateOne

definition matches :: "(string \<times> pyval) list \<Rightarrow> document \<Rightarrow> bool" where
  "matches query doc = list_all (\<lambda>(k, v). DAList.lookup doc k = Some v) query"

definition find_one :: "collection \<Rightarrow> (string \<times> pyval) list \<Rightarrow> (pyval \<times> document) option" where
  "find_one db query = List.find (\<lambda>(oid, doc). matches query doc) (DAList.impl_of db)"

fun oid_bound :: "pyval \<Rightarrow> nat" where
  "oid_bound (PId n) = Suc n"
| "oid_bound v = 0"

definition fresh_oid :: "collection \<Rightarrow> pyval" where
  "fresh_oid db = PId (fold max (map (oid_bound \<circ> fst) (DAList.impl_of db)) 0)"

definition insert_one :: "collection \<Rightarrow> document \<Rightarrow> error + collection" where
  "insert_one db doc =
     (case DAList.lookup doc ''_id'' of
        None \<Rightarrow> Inr (DAList.update (fresh_oid db) doc db)
      | Some oid \<Rightarrow>
          if DAList.lookup db oid \<noteq> None then Inl StoreError
          else Inr (DAList.update oid (DAList.delete ''_id'' doc) db))"

text \<open>\<^verbatim>\<open>{"$set": document}\<close>: every field of \<^verbatim>\<open>document\<close> is written over the stored one.\<close>

fun set_fields :: "document \<Rightarrow> (string \<times> pyval) list \<Rightarrow> document" where
  "set_fields doc [] = doc"
| "set_fields doc ((k, v) # items) = set_fields (DAList.update k v doc) items"

definition update_one :: "collection \<Rightarrow> pyval \<Rightarrow> document \<Rightarrow> error + collection" where
  "update_one db oid document =
     (case DAList.lookup db oid of
        None \<Rightarrow> Inr db
      | Some doc \<Rightarrow>
          (case DAList.lookup document ''_id'' of
             None \<Rightarrow> Inr (DAList.update oid (set_fields doc (DAList.impl_of document)) db)
           | Some oid' \<Rightarrow>
               if oid' \<noteq> oid then Inl StoreError
               else Inr (DAList.update oid
                      (set_fields doc (DAList.impl_of (DAList.delete ''_id'' document))) db)))"

section \<open>Change detector: \<^verbatim>\<open>process_deal\<close>\<close>

datatype deal_change =
  DealChange (change_type: string) (changed_fields: "(string \<times> pyval option \<times> pyval option) list")

text \<open>Lines 334-338: the query keys on the item identifier and on the marketplace and site
  when they are truthy.\<close>

definition build_query :: "deal \<Rightarrow> aval \<Rightarrow> (string \<times> pyval) list" where
  "build_query deal asin =
     (let marketplace_id = DAList.lookup deal ''marketplace_id'';
          site_name = DAList.lookup deal ''site''
      in [(''asin'', doc_val asin)]
         @ (case marketplace_id of
              None \<Rightarrow> []
            | Some m \<Rightarrow> if truthy m then [(''marketplace_id'', doc_val m)] else [])
         @ (case site_name of
              None \<Rightarrow> []
            | Some s \<Rightarrow> if truthy s then [(''site'', doc_val s)] else []))"

text \<open>Line 343: \<^verbatim>\<open>set(existing.get("categories", []))\<close>; a timestamp or an id is not iterable.\<close>

definition existing_categories :: "(pyval \<times> document) option \<Rightarrow> error + string set" where
  "existing_categories existing =
     (case existing of
        None \<Rightarrow> Inr {}
      | Some (oid, doc) \<Rightarrow>
          (case DAList.lookup doc ''categories'' of
             None \<Rightarrow> Inr {}
           | Some (PList xs) \<Rightarrow> Inr (set xs)
           | Some (PStr s) \<Rightarrow> Inr (set (map (\<lambda>c. [c]) s))
           | Some (PTime t) \<Rightarrow> Inl TypeError
           | Some (PId n) \<Rightarrow> Inl TypeError))"

text \<open>Lines 345-351: the direct category (a list cannot be added to a set) and the listing's
  category list.\<close>

definition add_categories :: "deal \<Rightarrow> string set \<Rightarrow> error + string set" where
  "add_categories deal categories =
     (let extra = (case DAList.lookup deal ''categories'' of
                     Some (ACats xs) \<Rightarrow> set xs
                   | Some (AStr s) \<Rightarrow> {}
                   | None \<Rightarrow> {})
      in case DAList.lookup deal ''category'' of
           None \<Rightarrow> Inr (categories \<union> extra)
         | Some (AStr c) \<Rightarrow> if c \<noteq> [] then Inr (insert c categories \<union> extra)
                            else Inr (categories \<union> extra)
         | Some (ACats cs) \<Rightarrow> if cs \<noteq> [] then Inl TypeError else Inr (categories \<union> extra))"

text \<open>Lines 363-370: the diff of the watched fields.\<close>

definition fields_to_watch :: "string list" where
  "fields_to_watch = [''current_price'']"

fun watch_diff ::
  "string list \<Rightarrow> document \<Rightarrow> deal \<Rightarrow> (string \<times> pyval option \<times> pyval option) list" where
  "watch_diff [] existing deal = []"
| "watch_diff (field # watched) existing deal =
     (let old_value = DAList.lookup existing field;
          new_value = map_option doc_val (DAList.lookup deal field)
      in if old_value \<noteq> new_value
         then (field, (old_value, new_value)) # watch_diff watched existing deal
         else watch_diff watched existing deal)"

text \<open>Line 353: \<^verbatim>\<open>{**deal, "categories": sorted(categories), "last_seen": now}\<close>.\<close>

definition build_document :: "nat \<Rightarrow> deal \<Rightarrow> string set \<Rightarrow> document" where
  "build_document now deal categories =
     DAList.update ''last_seen'' (PTime now)
       (DAList.update ''categories'' (PList (sorted_list_of_set categories))
         (to_document deal))"

text \<open>
  Lines 330-380. \<open>fails\<close> tells which store call raises during this call and \<open>now\<close> is
  the value of \<^verbatim>\<open>datetime.now(timezone.utc)\<close>. The result is the raised exception or the pair
  \<^verbatim>\<open>(change, is_new)\<close>, together with the collection afterwards.
\<close>

definition process_deal ::
  "(store_op \<Rightarrow> bool) \<Rightarrow> nat \<Rightarrow> deal \<Rightarrow> collection
     \<Rightarrow> (error + deal_change option \<times> bool) \<times> collection" where
  "process_deal fails now deal db =
     (case DAList.lookup deal ''asin'' of
        None \<Rightarrow> (Inl KeyError, db)
      | Some asin \<Rightarrow>
          if fails FindOne then (Inl StoreError, db)
          else
            let existing = find_one db (build_query deal asin) in
            (case existing_categories existing of
               Inl exc \<Rightarrow> (Inl exc, db)
             | Inr stored_categories \<Rightarrow>
                 (case add_categories deal stored_categories of
                    Inl exc \<Rightarrow> (Inl exc, db)
                  | Inr categories \<Rightarrow>
                      let document = build_document now deal categories
                      in (case existing of
                            None \<Rightarrow>
                              if fails InsertOne then (Inl StoreError, db)
                              else (case insert_one db
                                           (DAList.update ''first_seen'' (PTime now) document) of
                                      Inl exc \<Rightarrow> (Inl exc, db)
                                    | Inr db' \<Rightarrow>
                                        (Inr (Some (DealChange ''New deal'' []), True), db'))
                          | Some (oid, old) \<Rightarrow>
                              let changed = watch_diff fields_to_watch old deal in
                              if fails UpdateOne then (Inl StoreError, db)
                              else (case update_one db oid document of
                                      Inl exc \<Rightarrow> (Inl exc, db)
                                    | Inr db' \<Rightarrow>
                                        (Inr (if changed \<noteq> []
                                              then Some (DealChange ''Updated deal'' changed)
                                              else None, False), db'))))))"

section \<open>Cycle orchestrator: reconciliation and notification loops\<close>

text \<open>Lines 308-310: \<^verbatim>\<open>new_deal_counts[site_name] += 1\<close> on a \<^verbatim>\<open>defaultdict(int)\<close>; a list is
  not hashable.\<close>

definition count_new :: "deal \<Rightarrow> (string, nat) alist \<Rightarrow> error + (string, nat) alist" where
  "count_new deal new_deal_counts =
     (let bump = (\<lambda>site_name.
            DAList.update site_name
              (case DAList.lookup new_deal_counts site_name of None \<Rightarrow> 1 | Some n \<Rightarrow> Suc n)
              new_deal_counts)
      in case DAList.lookup deal ''site'' of
           None \<Rightarrow> Inr (bump ''Unknown Site'')
         | Some (AStr site_name) \<Rightarrow> Inr (bump site_name)
         | Some (ACats xs) \<Rightarrow> Inl TypeError)"

type_synonym notification = "deal \<times> deal_change"

type_synonym reconciled = "collection \<times> notification list \<times> (string, nat) alist"

text \<open>
  Lines 301-313: \<^verbatim>\<open>for deal in collected.values()\<close>. An exception of \<^verbatim>\<open>process_deal\<close> is
  caught and the listing skipped. \<open>store_fails\<close> and \<open>clock\<close> give, for the listing being
  processed, the store calls that raise and the time read. The first component of the
  result is the exception that leaves the loop, if any.
\<close>

fun process_deals ::
  "(deal \<Rightarrow> store_op \<Rightarrow> bool) \<Rightarrow> (deal \<Rightarrow> nat) \<Rightarrow> deal list \<Rightarrow> reconciled
     \<Rightarrow> error option \<times> reconciled" where
  "process_deals store_fails clock [] st = (None, st)"
| "process_deals store_fails clock (deal # deals) (db, notifications, new_deal_counts) =
     (case process_deal (store_fails deal) (clock deal) deal db of
        (Inl exc, db') \<Rightarrow>
          process_deals store_fails clock deals (db, notifications, new_deal_counts)
      | (Inr (change, is_new), db') \<Rightarrow>
          (case (if is_new then count_new deal new_deal_counts else Inr new_deal_counts) of
             Inl exc \<Rightarrow> (Some exc, (db', notifications, new_deal_counts))
           | Inr counts' \<Rightarrow>
               process_deals store_fails clock deals
                 (db',
                  (case change of
                     None \<Rightarrow> notifications
                   | Some c \<Rightarrow> notifications @ [(deal, c)]),
                  counts')))"

text \<open>
  The notifier is an external collaborator. The channel records what was delivered, how
  many times \<^verbatim>\<open>send\<close> was called and the milliseconds slept by \<^verbatim>\<open>notify_change\<close>; the
  embed is the rendering of the pair of listing and change and is represented by that pair.
  \<open>outcome\<close> gives the result of the \<open>n\<close>-th call of \<^verbatim>\<open>send\<close>.
\<close>

datatype send_result = Sent | HTTPError nat | OtherFailure

record channel =
  ready :: bool
  attempts :: nat
  delivered :: "notification list"
  slept_ms :: nat

definition send :: "(nat \<Rightarrow> send_result) \<Rightarrow> notification \<Rightarrow> channel \<Rightarrow> error option \<times> channel" where
  "send outcome msg ch =
     (case outcome (attempts ch) of
        Sent \<Rightarrow> (None, ch\<lparr>attempts := Suc (attempts ch), delivered := delivered ch @ [msg]\<rparr>)
      | HTTPError status \<Rightarrow> (Some (HTTPException status), ch\<lparr>attempts := Suc (attempts ch)\<rparr>)
      | OtherFailure \<Rightarrow> (Some SendError, ch\<lparr>attempts := Suc (attempts ch)\<rparr>))"

definition sleep :: "nat \<Rightarrow> channel \<Rightarrow> channel" where
  "sleep ms ch = ch\<lparr>slept_ms := slept_ms ch + ms\<rparr>"

text \<open>Lines 382-447: \<^verbatim>\<open>notify_change\<close>; the result is the exception it raises, if any.\<close>

definition notify_change ::
  "(nat \<Rightarrow> send_result) \<Rightarrow> deal \<Rightarrow> deal_change \<Rightarrow> channel \<Rightarrow> error option \<times> channel" where
  "notify_change outcome deal change ch =
     (if \<not> ready ch then (None, ch)
      else
        (case send outcome (deal, change) ch of
           (None, ch1) \<Rightarrow> (None, sleep 500 ch1)
         | (Some (HTTPException status), ch1) \<Rightarrow>
             if status = 429
             then (case send outcome (deal, change) (sleep 5000 ch1) of
                     (None, ch2) \<Rightarrow> (None, sleep 500 ch2)
                   | (Some exc, ch2) \<Rightarrow> (Some exc, ch2))
             else (Some (HTTPException status), ch1)
         | (Some exc, ch1) \<Rightarrow> (Some exc, ch1)))"

text \<open>Lines 327-328: \<^verbatim>\<open>for deal, change in notifications\<close>, with no handler around the call.\<close>

fun notify_all ::
  "(nat \<Rightarrow> send_result) \<Rightarrow> notification list \<Rightarrow> channel \<Rightarrow> error option \<times> channel" where
  "notify_all outcome [] ch = (None, ch)"
| "notify_all outcome ((deal, change) # notifications) ch =
     (case notify_change outcome deal change ch of
        (None, ch') \<Rightarrow> notify_all outcome notifications ch'
      | (Some exc, ch') \<Rightarrow> (Some exc, ch'))"

text \<open>The collaborators of one cycle.\<close>

record env =
  env_scrape :: scraper
  env_store_fails :: "deal \<Rightarrow> store_op \<Rightarrow> bool"
  env_clock :: "deal \<Rightarrow> nat"
  env_send_outcome :: "nat \<Rightarrow> send_result"

text \<open>Lines 199-328: one cycle, from the configured sites to the notifications. The result is
  the exception that ends the cycle, if any, with the store and the channel afterwards.\<close>

definition scrape_and_process ::
  "env \<Rightarrow> site list \<Rightarrow> collection \<times> channel \<Rightarrow> error option \<times> collection \<times> channel" where
  "scrape_and_process E sites w =
     (case w of (db, ch) \<Rightarrow>
        if sites = [] then (None, db, ch)
        else
          (case scrape_sites (env_scrape E) DAList.empty sites of
             (Some exc, collected) \<Rightarrow> (Some exc, db, ch)
           | (None, collected) \<Rightarrow>
               if DAList.impl_of collected = [] then (None, db, ch)
               else
                 (case process_deals (env_store_fails E) (env_clock E)
                         (map snd (DAList.impl_of collected)) (db, [], DAList.empty) of
                    (Some exc, (db', notifications, counts)) \<Rightarrow> (Some exc, db', ch)
                  | (None, (db', notifications, counts)) \<Rightarrow>
                      if notifications = [] then (None, db', ch)
                      else (case notify_all (env_send_outcome E) notifications ch of
                              (res, ch') \<Rightarrow> (res, db', ch')))))"

section \<open>Notions used to state the properties\<close>

text \<open>
  An observation is one listing together with the site context under which the loops of
  \<^verbatim>\<open>scrape_and_process\<close> meet it: marketplace identifier, site name, base URL.
  \<open>aggregate\<close> runs the loop body \<^const>\<open>collect_deal\<close> over a sequence of observations;
  \<open>observations\<close> is the sequence that the nested loops over sites and categories meet
  until they end, and \<open>sites_raise\<close> the exception that ends them early, if any.
\<close>

type_synonym observation = "string \<times> string \<times> string \<times> raw_deal"

fun aggregate :: "(string, deal) alist \<Rightarrow> observation list \<Rightarrow> (string, deal) alist" where
  "aggregate collected [] = collected"
| "aggregate collected ((marketplace_id, site_name, base_url, deal) # obs) =
     aggregate (collect_deal marketplace_id site_name base_url collected deal) obs"

fun categories_raise ::
  "scraper \<Rightarrow> string \<Rightarrow> string \<Rightarrow> string \<Rightarrow> string list \<Rightarrow> error option" where
  "categories_raise scrape marketplace_id site_name base_url [] = None"
| "categories_raise scrape marketplace_id site_name base_url (category # categories) =
     (case scrape category marketplace_id base_url site_name of
        ConstructorRaises exc \<Rightarrow> Some exc
      | ScrapeRaises exc \<Rightarrow> categories_raise scrape marketplace_id site_name base_url categories
      | Scraped deals \<Rightarrow> categories_raise scrape marketplace_id site_name base_url categories)"

fun category_observations ::
  "scraper \<Rightarrow> string \<Rightarrow> string \<Rightarrow> string \<Rightarrow> string list \<Rightarrow> observation list" where
  "category_observations scrape marketplace_id site_name base_url [] = []"
| "category_observations scrape marketplace_id site_name base_url (category # categories) =
     (case scrape category marketplace_id base_url site_name of
        ConstructorRaises exc \<Rightarrow> []
      | ScrapeRaises exc \<Rightarrow>
          category_observations scrape marketplace_id site_name base_url categories
      | Scraped deals \<Rightarrow>
          map (\<lambda>deal. (marketplace_id, site_name, base_url, deal)) deals
          @ category_observations scrape marketplace_id site_name base_url categories)"

fun sites_raise :: "scraper \<Rightarrow> site list \<Rightarrow> error option" where
  "sites_raise scrape [] = None"
| "sites_raise scrape (s # sites) =
     (case categories_raise scrape (cfg_marketplace_id s) (cfg_name s) (cfg_base_url s)
             (if cfg_scrape_all s then CATEGORIES else cfg_categories s) of
        Some exc \<Rightarrow> Some exc
      | None \<Rightarrow> sites_raise scrape sites)"

fun observations :: "scraper \<Rightarrow> site list \<Rightarrow> observation list" where
  "observations scrape [] = []"
| "observations scrape (s # sites) =
     category_observations scrape (cfg_marketplace_id s) (cfg_name s) (cfg_base_url s)
       (if cfg_scrape_all s then CATEGORIES else cfg_categories s)
     @ (case categories_raise scrape (cfg_marketplace_id s) (cfg_name s) (cfg_base_url s)
               (if cfg_scrape_all s then CATEGORIES else cfg_categories s) of
          Some exc \<Rightarrow> []
        | None \<Rightarrow> observations scrape sites)"

text \<open>The key under which an observation is collected (none when it is skipped at line 262)
  and the category label it contributes (line 267).\<close>

definition obs_key :: "observation \<Rightarrow> string option" where
  "obs_key ob =
     (case ob of (marketplace_id, site_name, base_url, deal) \<Rightarrow>
        (case DAList.lookup deal ''asin'' of
           None \<Rightarrow> None
         | Some asin \<Rightarrow>
             if asin = [] \<or> asin = ''N/A'' then None
             else Some (deal_key marketplace_id site_name asin)))"

definition obs_category :: "observation \<Rightarrow> string" where
  "obs_category ob =
     (case ob of (marketplace_id, site_name, base_url, deal) \<Rightarrow>
        (case DAList.lookup deal ''category'' of None \<Rightarrow> ''Unknown'' | Some c \<Rightarrow> c))"

definition observed_categories :: "observation list \<Rightarrow> string \<Rightarrow> string set" where
  "observed_categories obs key =
     set (map obs_category (filter (\<lambda>ob. obs_key ob = Some key) obs))"

text \<open>A value is present when the merge of lines 278-279 would store it.\<close>

definition field_present :: "raw_deal \<Rightarrow> string \<Rightarrow> bool" where
  "field_present deal field =
     (case DAList.lookup deal field of None \<Rightarrow> False | Some v \<Rightarrow> v \<noteq> [] \<and> v \<noteq> ''N/A'')"

definition entry_categories :: "(string, deal) alist \<Rightarrow> string \<Rightarrow> aval option" where
  "entry_categories collected key =
     (case DAList.lookup collected key of
        None \<Rightarrow> None
      | Some e \<Rightarrow> DAList.lookup e ''categories'')"

definition entry_field :: "(string, deal) alist \<Rightarrow> string \<Rightarrow> string \<Rightarrow> aval option" where
  "entry_field collected key field =
     (case DAList.lookup collected key of None \<Rightarrow> None | Some e \<Rightarrow> DAList.lookup e field)"

text \<open>The invariant of the aggregator: every collected entry carries the sorted list of
  the categories \<open>S key\<close> observed for its key so far.\<close>

definition cat_inv :: "(string, deal) alist \<Rightarrow> (string \<Rightarrow> string set) \<Rightarrow> bool" where
  "cat_inv col S \<longleftrightarrow>
     (\<forall>k. (DAList.lookup col k = None \<and> S k = {}) \<or>
          (\<exists>e. DAList.lookup col k = Some e \<and> finite (S k) \<and> S k \<noteq> {} \<and>
               DAList.lookup e ''categories'' = Some (ACats (sorted_list_of_set (S k)))))"

text \<open>The category labels a stored document carries, read as \<^verbatim>\<open>process_deal\<close> reads them.\<close>

definition doc_categories :: "document \<Rightarrow> string set" where
  "doc_categories doc =
     (case DAList.lookup doc ''categories'' of
        Some (PList xs) \<Rightarrow> set xs
      | Some (PStr s) \<Rightarrow> set (map (\<lambda>c. [c]) s)
      | Some (PTime t) \<Rightarrow> {}
      | Some (PId n) \<Rightarrow> {}
      | None \<Rightarrow> {})"

text \<open>The category labels an aggregated listing brings to \<^verbatim>\<open>process_deal\<close>: its direct
  category when truthy, and its category list.\<close>

definition deal_categories :: "deal \<Rightarrow> string set" where
  "deal_categories deal =
     (case DAList.lookup deal ''category'' of
        Some (AStr c) \<Rightarrow> (if c \<noteq> [] then {c} else {})
      | Some (ACats cs) \<Rightarrow> {}
      | None \<Rightarrow> {})
     \<union> (case DAList.lookup deal ''categories'' of
          Some (ACats xs) \<Rightarrow> set xs
        | Some (AStr s) \<Rightarrow> {}
        | None \<Rightarrow> {})"

text \<open>A raw listing with an item identifier, a category label and a current price, for the
  scenarios.\<close>

definition listing :: "string \<Rightarrow> string \<Rightarrow> string \<Rightarrow> raw_deal" where
  "listing asin category price =
     DAList.update ''current_price'' price
       (DAList.update ''category'' category
         (DAList.update ''asin'' asin DAList.empty))"

text \<open>An aggregated listing is well formed when its category list is sorted, without
  duplicates, and holds every label the listing brings to \<^verbatim>\<open>process_deal\<close>; the
  aggregator only builds such listings.\<close>

definition agg_wf :: "deal \<Rightarrow> bool" where
  "agg_wf deal =
     (case DAList.lookup deal ''categories'' of
        Some (ACats cs) \<Rightarrow> sorted cs \<and> distinct cs \<and> deal_categories deal = set cs
      | Some (AStr s) \<Rightarrow> False
      | None \<Rightarrow> False)"

text \<open>For the scenarios: the listing that the aggregator builds from one observation of
  \<^const>\<open>listing\<close> on the site "S" of marketplace "M"; the document stored for such a listing
  at time \<open>seen\<close>; the store that holds one document; and the store calls of a cycle
  in which none raises.\<close>

definition aggregated :: "string \<Rightarrow> string \<Rightarrow> string \<Rightarrow> deal" where
  "aggregated asin category price =
     first_observation ''M'' ''S'' ''U'' category (listing asin category price)"

definition stored_record :: "string \<Rightarrow> string \<Rightarrow> string \<Rightarrow> nat \<Rightarrow> document" where
  "stored_record asin category price seen =
     DAList.update ''last_seen'' (PTime seen)
       (DAList.update ''first_seen'' (PTime seen)
         (DAList.update ''categories'' (PList [category])
           (DAList.update ''current_price'' (PStr price)
             (DAList.update ''site'' (PStr ''S'')
               (DAList.update ''marketplace_id'' (PStr ''M'')
                 (DAList.update ''asin'' (PStr asin) DAList.empty))))))"

definition store_of :: "document \<Rightarrow> collection" where
  "store_of doc = DAList.update (PId 0) doc DAList.empty"

definition never :: "store_op \<Rightarrow> bool" where
  "never op = False"

text \<open>Every collected listing is well formed; and the label that the direct category
  of a listing contributes.\<close>

definition all_wf :: "(string, deal) alist \<Rightarrow> bool" where
  "all_wf col \<longleftrightarrow> (\<forall>k e. DAList.lookup col k = Some e \<longrightarrow> agg_wf e)"

definition category_part :: "deal \<Rightarrow> string set" where
  "category_part deal =
     (case DAList.lookup deal ''category'' of
        Some (AStr c) \<Rightarrow> (if c \<noteq> [] then {c} else {})
      | Some (ACats cs) \<Rightarrow> {}
      | None \<Rightarrow> {})"

text \<open>The value a stored document has for a field.\<close>

definition stored_field :: "collection \<Rightarrow> pyval \<Rightarrow> string \<Rightarrow> pyval option" where
  "stored_field db oid field =
     (case DAList.lookup db oid of None \<Rightarrow> None | Some doc \<Rightarrow> DAList.lookup doc field)"

text \<open>Every document of \<open>db\<close> is still in \<open>db'\<close>, with at least the categories it had.\<close>

definition cats_grow :: "collection \<Rightarrow> collection \<Rightarrow> bool" where
  "cats_grow db db' \<longleftrightarrow>
     (\<forall>oid doc. DAList.lookup db oid = Some doc \<longrightarrow>
        (\<exists>doc'. DAList.lookup db' oid = Some doc' \<and> doc_categories doc \<subseteq> doc_categories doc'))"

text \<open>A sequence of cycles, each with its own collaborators and configuration; a cycle
  that ends with an exception still leaves its store and channel to the next one.\<close>

fun run_cycles :: "(env \<times> site list) list \<Rightarrow> collection \<times> channel \<Rightarrow> collection \<times> channel" where
  "run_cycles [] w = w"
| "run_cycles ((E, sites) # cycles) w = run_cycles cycles (snd (scrape_and_process E sites w))"

text \<open>Collaborators and configuration for the scenarios: a scraper that fails for the
  category "Books" and otherwise returns the one listing "X" at "8.00", a store that never
  fails, a clock that reads 2, and one site with the given categories.\<close>

definition example_scrape :: scraper where
  "example_scrape category marketplace_id base_url site_name =
     (if category = ''Books'' then ScrapeRaises ScrapeError
      else Scraped [listing ''X'' category ''8.00''])"

definition example_env :: "(nat \<Rightarrow> send_result) \<Rightarrow> env" where
  "example_env outcome =
     \<lparr>env_scrape = example_scrape, env_store_fails = (\<lambda>deal. never),
      env_clock = (\<lambda>deal. 2), env_send_outcome = outcome\<rparr>"

definition example_site :: "string list \<Rightarrow> site" where
  "example_site categories =
     \<lparr>cfg_name = ''S'', cfg_base_url = ''U'', cfg_marketplace_id = ''M'',
      cfg_categories = categories, cfg_scrape_all = False\<rparr>"

definition idle_channel :: channel where
  "idle_channel = \<lparr>ready = True, attempts = 0, delivered = [], slept_ms = 0\<rparr>"

text \<open>A store whose insert raises for the listing \<open>bad\<close>, and no other call.\<close>

definition failing_for :: "deal \<Rightarrow> deal \<Rightarrow> store_op \<Rightarrow> bool" where
  "failing_for bad deal op = (deal = bad \<and> op = InsertOne)"

text \<open>A scraper whose constructor raises for the base URL "http://[", as \<^verbatim>\<open>urlparse\<close> does,
  and which otherwise returns the one listing "X" at "8.00"; a site configured with that
  base URL; and a cycle with this scraper in which store and notifier never fail.\<close>

definition url_checking :: scraper where
  "url_checking category marketplace_id base_url site_name =
     (if base_url = ''http://['' then ConstructorRaises ValueError
      else Scraped [listing ''X'' category ''8.00''])"

definition malformed_site :: site where
  "malformed_site =
     \<lparr>cfg_name = ''T'', cfg_base_url = ''http://['', cfg_marketplace_id = ''M'',
      cfg_categories = [''Books''], cfg_scrape_all = False\<rparr>"

definition url_checking_env :: env where
  "url_checking_env =
     \<lparr>env_scrape = url_checking, env_store_fails = (\<lambda>deal. never),
      env_clock = (\<lambda>deal. 2), env_send_outcome = (\<lambda>n. Sent)\<rparr>"

text \<open>The identity triple of an observation (none when it is skipped at line 262), and the
  category labels under which an identity was observed.\<close>

definition obs_identity :: "observation \<Rightarrow> (string \<times> string \<times> string) option" where
  "obs_identity ob =
     (case ob of (marketplace_id, site_name, base_url, deal) \<Rightarrow>
        (case DAList.lookup deal ''asin'' of
           None \<Rightarrow> None
         | Some asin \<Rightarrow>
             if asin = [] \<or> asin = ''N/A'' then None
             else Some (marketplace_id, site_name, asin)))"

definition identity_categories ::
  "observation list \<Rightarrow> string \<times> string \<times> string \<Rightarrow> string set" where
  "identity_categories obs ident =
     set (map obs_category (filter (\<lambda>ob. obs_identity ob = Some ident) obs))"

text \<open>The exception that a result of \<^verbatim>\<open>send\<close> stands for.\<close>

definition send_error :: "send_result \<Rightarrow> error option" where
  "send_error res =
     (case res of
        Sent \<Rightarrow> None
      | HTTPError status \<Rightarrow> Some (HTTPException status)
      | OtherFailure \<Rightarrow> Some SendError)"

text \<open>A scraper that returns the two listings "X" and "Y", and a notifier that answers the
  first two calls with the rate-limit status 429 and accepts every later one.\<close>

definition two_listings :: scraper where
  "two_listings category marketplace_id base_url site_name =
     Scraped [listing ''X'' category ''8.00'', listing ''Y'' category ''5.00'']"

definition limited_twice :: "nat \<Rightarrow> send_result" where
  "limited_twice n = (if n < 2 then HTTPError 429 else Sent)"

text \<open>A notifier that answers only the first call with the status 429.\<close>

definition limited_once :: "nat \<Rightarrow> send_result" where
  "limited_once n = (if n < 1 then HTTPError 429 else Sent)"

definition limited_env :: env where
  "limited_env =
     \<lparr>env_scrape = two_listings, env_store_fails = (\<lambda>deal. never),
      env_clock = (\<lambda>deal. 2), env_send_outcome = limited_twice\<rparr>"

text \<open>The fields of a collected listing satisfy \<open>P\<close> when the four fields that the
  aggregator sets do and every field of every observed raw listing does.\<close>

definition keys_ok :: "(string \<Rightarrow> bool) \<Rightarrow> (string, deal) alist \<Rightarrow> bool" where
  "keys_ok P col \<longleftrightarrow>
     (\<forall>k e f v. DAList.lookup col k = Some e \<and> DAList.lookup e f = Some v \<longrightarrow> P f)"

section \<open>Dictionaries\<close>

lemma lookup_dict_of: "DAList.lookup (dict_of d) k = map_option AStr (DAList.lookup d k)"
  apply transfer
  subgoal for d k by (induction d) auto
  done

lemma lookup_to_document:
  "DAList.lookup (to_document d) k = map_option doc_val (DAList.lookup d k)"
  apply transfer
  subgoal for d k by (induction d) auto
  done

lemma lookup_Some_nonempty: "DAList.lookup e f = Some v \<Longrightarrow> DAList.impl_of e \<noteq> []"
  by (auto simp: DAList.lookup.rep_eq)

lemma merge_fields_categories:
  "DAList.lookup (merge_fields stored items) ''categories'' = DAList.lookup stored ''categories''"
  by (induction stored items rule: merge_fields.induct) auto

lemma merge_fields_lookup:
  "distinct (map fst items) \<Longrightarrow> field \<noteq> ''categories'' \<Longrightarrow>
   DAList.lookup (merge_fields stored items) field =
     (case map_of items field of
        None \<Rightarrow> DAList.lookup stored field
      | Some v \<Rightarrow> if v \<noteq> [] \<and> v \<noteq> ''N/A'' then Some (AStr v) else DAList.lookup stored field)"
proof (induction stored items rule: merge_fields.induct)
  case (1 stored)
  then show ?case by simp
next
  case (2 stored f v items)
  have nf: "f = field \<Longrightarrow> map_of items field = None"
    using 2(4) by (auto simp: map_of_eq_None_iff)
  show ?case
  proof (cases "f = field")
    case True
    then show ?thesis using 2 nf by (auto simp: DAList.lookup_update)
  next
    case False
    then show ?thesis using 2 by (auto simp: DAList.lookup_update split: option.splits)
  qed
qed

lemma set_fields_lookup:
  "distinct (map fst items) \<Longrightarrow>
   DAList.lookup (set_fields doc items) field =
     (case map_of items field of None \<Rightarrow> DAList.lookup doc field | Some v \<Rightarrow> Some v)"
proof (induction doc items rule: set_fields.induct)
  case (1 doc)
  then show ?case by simp
next
  case (2 doc k v items)
  have nf: "k = field \<Longrightarrow> map_of items field = None"
    using 2(2) by (auto simp: map_of_eq_None_iff)
  show ?case using 2 nf
    by (cases "k = field") (auto simp: DAList.lookup_update split: option.splits)
qed

section \<open>The aggregator\<close>

lemma merge_observation_categories:
  "DAList.lookup (merge_observation stored c deal) ''categories'' =
     Some (ACats (sorted_list_of_set (insert c
       (case DAList.lookup stored ''categories'' of None \<Rightarrow> {} | Some v \<Rightarrow> set (elements v)))))"
  by (simp add: merge_observation_def merge_fields_categories)

lemma first_observation_categories:
  "DAList.lookup (first_observation m s b c deal) ''categories'' = Some (ACats [c])"
  by (simp add: first_observation_def)

lemma collect_deal_cat_inv:
  assumes "cat_inv col S"
  shows "cat_inv (collect_deal m s b col d)
           (\<lambda>k. if obs_key (m, s, b, d) = Some k then insert (obs_category (m, s, b, d)) (S k) else S k)"
proof (cases "obs_key (m, s, b, d)")
  case None
  then have "collect_deal m s b col d = col"
    by (auto simp: obs_key_def collect_deal_def split: option.splits if_splits)
  with None assms show ?thesis by simp
next
  case (Some key)
  then obtain asin where asin: "DAList.lookup d ''asin'' = Some asin" "asin \<noteq> []" "asin \<noteq> ''N/A''"
    "key = deal_key m s asin"
    by (auto simp: obs_key_def split: option.splits if_splits)
  let ?c = "obs_category (m, s, b, d)"
  have c: "(case DAList.lookup d ''category'' of None \<Rightarrow> ''Unknown'' | Some c \<Rightarrow> c) = ?c"
    by (simp add: obs_category_def)
  show ?thesis
    unfolding cat_inv_def
  proof
    fix k
    let ?col' = "collect_deal m s b col d"
    let ?S' = "\<lambda>k. if obs_key (m, s, b, d) = Some k then insert ?c (S k) else S k"
    from assms have k: "(DAList.lookup col k = None \<and> S k = {}) \<or>
          (\<exists>e. DAList.lookup col k = Some e \<and> finite (S k) \<and> S k \<noteq> {} \<and>
               DAList.lookup e ''categories'' = Some (ACats (sorted_list_of_set (S k))))"
      unfolding cat_inv_def by blast
    show "(DAList.lookup ?col' k = None \<and> ?S' k = {}) \<or>
          (\<exists>e. DAList.lookup ?col' k = Some e \<and> finite (?S' k) \<and> ?S' k \<noteq> {} \<and>
               DAList.lookup e ''categories'' = Some (ACats (sorted_list_of_set (?S' k))))"
    proof (cases "k = key")
      case False
      then have "DAList.lookup ?col' k = DAList.lookup col k"
        using asin by (auto simp: collect_deal_def Let_def DAList.lookup_update split: option.splits)
      with False Some k show ?thesis by auto
    next
      case True
      from k show ?thesis
      proof
        assume a: "DAList.lookup col k = None \<and> S k = {}"
        then have "DAList.lookup ?col' k = Some (first_observation m s b ?c d)"
          using asin True c by (simp add: collect_deal_def Let_def)
        with a True Some show ?thesis
          by (simp add: first_observation_categories)
      next
        assume "\<exists>e. DAList.lookup col k = Some e \<and> finite (S k) \<and> S k \<noteq> {} \<and>
               DAList.lookup e ''categories'' = Some (ACats (sorted_list_of_set (S k)))"
        then obtain e where e: "DAList.lookup col k = Some e" "finite (S k)" "S k \<noteq> {}"
          "DAList.lookup e ''categories'' = Some (ACats (sorted_list_of_set (S k)))"
          by blast
        have ne: "DAList.impl_of e \<noteq> []" using e(4) by (rule lookup_Some_nonempty)
        have "DAList.lookup ?col' k = Some (merge_observation e ?c d)"
          using asin True c e(1) ne by (simp add: collect_deal_def Let_def)
        moreover have "DAList.lookup (merge_observation e ?c d) ''categories'' =
            Some (ACats (sorted_list_of_set (insert ?c (S k))))"
          using e by (simp add: merge_observation_categories)
        ultimately show ?thesis using True Some e by simp
      qed
    qed
  qed
qed

lemma observed_categories_Cons:
  "observed_categories (ob # obs) k =
     (if obs_key ob = Some k then insert (obs_category ob) (observed_categories obs k)
      else observed_categories obs k)"
  by (simp add: observed_categories_def)

lemma aggregate_cat_inv:
  "cat_inv col S \<Longrightarrow> cat_inv (aggregate col obs) (\<lambda>k. S k \<union> observed_categories obs k)"
proof (induction obs arbitrary: col S)
  case Nil
  then show ?case by (simp add: observed_categories_def)
next
  case (Cons ob obs)
  obtain m s b d where ob: "ob = (m, s, b, d)" by (cases ob) auto
  have "cat_inv (collect_deal m s b col d)
           (\<lambda>k. if obs_key (m, s, b, d) = Some k then insert (obs_category (m, s, b, d)) (S k) else S k)"
    using Cons.prems by (rule collect_deal_cat_inv)
  from Cons.IH[OF this]
  have "cat_inv (aggregate col (ob # obs))
     (\<lambda>k. (if obs_key ob = Some k then insert (obs_category ob) (S k) else S k) \<union> observed_categories obs k)"
    unfolding ob by simp
  moreover have "(\<lambda>k. (if obs_key ob = Some k then insert (obs_category ob) (S k) else S k) \<union> observed_categories obs k)
     = (\<lambda>k. S k \<union> observed_categories (ob # obs) k)"
    by (auto simp: observed_categories_Cons fun_eq_iff)
  ultimately show ?case by simp
qed

lemma aggregate_categories:
  "entry_categories (aggregate DAList.empty obs) key =
     (if observed_categories obs key = {} then None
      else Some (ACats (sorted_list_of_set (observed_categories obs key))))"
proof -
  have "cat_inv DAList.empty (\<lambda>k. {})" by (simp add: cat_inv_def)
  from aggregate_cat_inv[OF this, of obs]
  have "cat_inv (aggregate DAList.empty obs) (\<lambda>k. observed_categories obs k)" by simp
  then show ?thesis
    unfolding cat_inv_def entry_categories_def
    by (metis (no_types, lifting) option.simps(4,5))
qed

lemma aggregate_append: "aggregate col (xs @ ys) = aggregate (aggregate col xs) ys"
  by (induction xs arbitrary: col) auto

lemma collect_deal_other_key:
  "obs_key (m, s, b, d) \<noteq> Some key \<Longrightarrow>
   DAList.lookup (collect_deal m s b col d) key = DAList.lookup col key"
  by (auto simp: obs_key_def collect_deal_def Let_def DAList.lookup_update split: option.splits)

lemma merge_observation_field:
  "field \<noteq> ''categories'' \<Longrightarrow>
   DAList.lookup (merge_observation stored c d) field =
     (if field_present d field then map_option AStr (DAList.lookup d field)
      else DAList.lookup stored field)"
  by (auto simp: merge_observation_def merge_fields_lookup field_present_def
      DAList.lookup.rep_eq[symmetric] split: option.splits)

lemma first_observation_field:
  "field \<notin> {''categories'', ''marketplace_id'', ''site'', ''base_url''} \<Longrightarrow>
   DAList.lookup (first_observation m s b c d) field = map_option AStr (DAList.lookup d field)"
  by (auto simp: first_observation_def lookup_dict_of DAList.lookup_update)

lemma collect_deal_sets_field:
  assumes "obs_key (m, s, b, d) = Some key" "field_present d field"
    "field \<notin> {''categories'', ''marketplace_id'', ''site'', ''base_url''}"
  shows "entry_field (collect_deal m s b col d) key field = map_option AStr (DAList.lookup d field)"
  using assms
  by (auto simp: obs_key_def collect_deal_def Let_def entry_field_def merge_observation_field
      first_observation_field split: option.splits if_splits)

lemma collect_deal_keeps_field:
  assumes "entry_field col key field = Some x" "field \<noteq> ''categories''"
    "obs_key (m, s, b, d) = Some key \<longrightarrow> \<not> field_present d field"
  shows "entry_field (collect_deal m s b col d) key field = Some x"
proof (cases "obs_key (m, s, b, d) = Some key")
  case False
  then show ?thesis using assms(1) by (simp add: entry_field_def collect_deal_other_key)
next
  case True
  from assms(1) obtain e where e: "DAList.lookup col key = Some e" "DAList.lookup e field = Some x"
    by (auto simp: entry_field_def split: option.splits)
  have ne: "DAList.impl_of e \<noteq> []" using e(2) by (rule lookup_Some_nonempty)
  from True assms(3) have np: "\<not> field_present d field" by simp
  from True e ne np assms(2) show ?thesis
    by (auto simp: obs_key_def collect_deal_def Let_def entry_field_def merge_observation_field
        split: option.splits if_splits)
qed

lemma aggregate_keeps_field:
  assumes "entry_field col key field = Some x" "field \<noteq> ''categories''"
    "\<forall>ob \<in> set obs. obs_key ob = Some key \<longrightarrow> \<not> field_present (snd (snd (snd ob))) field"
  shows "entry_field (aggregate col obs) key field = Some x"
  using assms
proof (induction obs arbitrary: col)
  case Nil
  then show ?case by simp
next
  case (Cons ob obs)
  obtain m s b d where ob: "ob = (m, s, b, d)" by (cases ob) auto
  have "entry_field (collect_deal m s b col d) key field = Some x"
    using Cons.prems ob by (intro collect_deal_keeps_field) auto
  then show ?case using Cons ob by simp
qed

lemma aggregate_last_present:
  assumes "obs_key (m, s, b, d) = Some key" "field_present d field"
    "field \<notin> {''categories'', ''marketplace_id'', ''site'', ''base_url''}"
    "\<forall>ob \<in> set later. obs_key ob = Some key \<longrightarrow> \<not> field_present (snd (snd (snd ob))) field"
  shows "entry_field (aggregate col (earlier @ (m, s, b, d) # later)) key field =
           map_option AStr (DAList.lookup d field)"
proof -
  from assms(2) obtain v where v: "DAList.lookup d field = Some v"
    by (auto simp: field_present_def split: option.splits)
  have "entry_field (collect_deal m s b (aggregate col earlier) d) key field = Some (AStr v)"
    using collect_deal_sets_field[OF assms(1,2,3)] v by simp
  then have "entry_field (aggregate (collect_deal m s b (aggregate col earlier) d) later) key field
      = Some (AStr v)"
    using assms(3,4) by (intro aggregate_keeps_field) auto
  then show ?thesis by (simp add: aggregate_append v)
qed

lemma collect_deals_aggregate:
  "collect_deals m s b col deals = aggregate col (map (\<lambda>deal. (m, s, b, deal)) deals)"
  by (induction deals arbitrary: col) auto

lemma scrape_categories_aggregate:
  "scrape_categories scrape m s b col categories =
     (categories_raise scrape m s b categories,
      aggregate col (category_observations scrape m s b categories))"
  by (induction categories arbitrary: col)
    (auto simp: collect_deals_aggregate aggregate_append split: scrape_result.splits)

lemma scrape_sites_aggregate:
  "scrape_sites scrape col sites =
     (sites_raise scrape sites, aggregate col (observations scrape sites))"
proof (induction sites arbitrary: col)
  case Nil
  then show ?case by simp
next
  case (Cons s sites)
  show ?case
    using Cons.IH
    by (auto simp: Let_def scrape_categories_aggregate aggregate_append split: option.splits)
qed

lemma collect_deal_repeated:
  assumes "obs_key (m, s, b, d) = Some key"
    and "DAList.lookup collected key = Some stored"
    and "DAList.impl_of stored \<noteq> []"
  shows "DAList.lookup (collect_deal m s b collected d) key =
      Some (merge_observation stored (obs_category (m, s, b, d)) d)"
proof -
  from assms(1) obtain asin where asin: "DAList.lookup d ''asin'' = Some asin" "asin \<noteq> []"
    "asin \<noteq> ''N/A''" "key = deal_key m s asin"
    by (auto simp: obs_key_def split: option.splits if_splits)
  have c: "(case DAList.lookup d ''category'' of None \<Rightarrow> ''Unknown'' | Some c \<Rightarrow> c)
      = obs_category (m, s, b, d)"
    by (simp add: obs_category_def)
  show ?thesis
    using asin assms(2,3) c by (simp add: collect_deal_def Let_def)
qed

section \<open>Claims about the run aggregator\<close>



lemma observed_categories_mset:
  "mset obs = mset obs' \<Longrightarrow> observed_categories obs key = observed_categories obs' key"
proof -
  assume "mset obs = mset obs'"
  then have "set obs = set obs'" by (rule mset_eq_setD)
  then show ?thesis by (auto simp: observed_categories_def)
qed

text \<open>
  Permuting the observations of a cycle leaves the category list collected under every key
  string unchanged: it is the sorted list of the set of category labels of the
  observations with that key. The other fields depend on the order: the last present value
  in observation order wins, and the same two observations in the two orders end with
  different prices. This is a statement about keys; two identities that share a key share
  the entry.
\<close>

theorem aggregated_categories_order_independent:
  assumes "mset obs = mset obs'"
  shows "entry_categories (aggregate DAList.empty obs) key =
      entry_categories (aggregate DAList.empty obs') key \<and>
    entry_categories (aggregate DAList.empty obs) key =
      (if observed_categories obs key = {} then None
       else Some (ACats (sorted_list_of_set (observed_categories obs key)))) \<and>
    (\<forall>m s b d field earlier later.
      obs = earlier @ (m, s, b, d) # later \<and>
      obs_key (m, s, b, d) = Some key \<and>
      field_present d field \<and>
      field \<notin> {''categories'', ''marketplace_id'', ''site'', ''base_url''} \<and>
      (\<forall>ob \<in> set later. obs_key ob = Some key \<longrightarrow> \<not> field_present (snd (snd (snd ob))) field)
      \<longrightarrow> entry_field (aggregate DAList.empty obs) key field =
            map_option AStr (DAList.lookup d field)) \<and>
    entry_field (aggregate DAList.empty
        [(''M'', ''S'', ''U'', listing ''X'' ''Beauty'' ''10.00''),
         (''M'', ''S'', ''U'', listing ''X'' ''Gaming'' ''8.00'')]) ''M:S:X'' ''current_price''
      = Some (AStr ''8.00'') \<and>
    entry_field (aggregate DAList.empty
        [(''M'', ''S'', ''U'', listing ''X'' ''Gaming'' ''8.00''),
         (''M'', ''S'', ''U'', listing ''X'' ''Beauty'' ''10.00'')]) ''M:S:X'' ''current_price''
      = Some (AStr ''10.00'')"
proof (intro conjI)
  show "entry_categories (aggregate DAList.empty obs) key =
      entry_categories (aggregate DAList.empty obs') key"
    using observed_categories_mset[OF assms, of key] by (simp add: aggregate_categories)
  show "entry_categories (aggregate DAList.empty obs) key =
      (if observed_categories obs key = {} then None
       else Some (ACats (sorted_list_of_set (observed_categories obs key))))"
    by (rule aggregate_categories)
  show "\<forall>m s b d field earlier later.
      obs = earlier @ (m, s, b, d) # later \<and>
      obs_key (m, s, b, d) = Some key \<and>
      field_present d field \<and>
      field \<notin> {''categories'', ''marketplace_id'', ''site'', ''base_url''} \<and>
      (\<forall>ob \<in> set later. obs_key ob = Some key \<longrightarrow> \<not> field_present (snd (snd (snd ob))) field)
      \<longrightarrow> entry_field (aggregate DAList.empty obs) key field =
            map_option AStr (DAList.lookup d field)"
    using aggregate_last_present by blast
  show "entry_field (aggregate DAList.empty
        [(''M'', ''S'', ''U'', listing ''X'' ''Beauty'' ''10.00''),
         (''M'', ''S'', ''U'', listing ''X'' ''Gaming'' ''8.00'')]) ''M:S:X'' ''current_price''
      = Some (AStr ''8.00'')"
    by code_simp
  show "entry_field (aggregate DAList.empty
        [(''M'', ''S'', ''U'', listing ''X'' ''Gaming'' ''8.00''),
         (''M'', ''S'', ''U'', listing ''X'' ''Beauty'' ''10.00'')]) ''M:S:X'' ''current_price''
      = Some (AStr ''10.00'')"
    by code_simp
qed

text \<open>The two orders of the observations of "X" in "Beauty" and in "Gaming" are
  permutations of each other and aggregate to the same category list.\<close>

theorem aggregated_categories_order_independent_witness:
  "mset [(''M'', ''S'', ''U'', listing ''X'' ''Beauty'' ''10.00''),
         (''M'', ''S'', ''U'', listing ''X'' ''Gaming'' ''8.00'')] =
   mset [(''M'', ''S'', ''U'', listing ''X'' ''Gaming'' ''8.00''),
         (''M'', ''S'', ''U'', listing ''X'' ''Beauty'' ''10.00'')] \<and>
   entry_categories (aggregate DAList.empty
        [(''M'', ''S'', ''U'', listing ''X'' ''Beauty'' ''10.00''),
         (''M'', ''S'', ''U'', listing ''X'' ''Gaming'' ''8.00'')]) ''M:S:X''
     = Some (ACats [''Beauty'', ''Gaming'']) \<and>
   entry_categories (aggregate DAList.empty
        [(''M'', ''S'', ''U'', listing ''X'' ''Gaming'' ''8.00''),
         (''M'', ''S'', ''U'', listing ''X'' ''Beauty'' ''10.00'')]) ''M:S:X''
     = Some (ACats [''Beauty'', ''Gaming''])"
proof -
  let ?a = "(''M'', ''S'', ''U'', listing ''X'' ''Beauty'' ''10.00'')"
  let ?b = "(''M'', ''S'', ''U'', listing ''X'' ''Gaming'' ''8.00'')"
  have h: "mset [?a, ?b] = mset [?b, ?a]" by (simp add: add_mset_commute)
  have oc: "(if observed_categories [?a, ?b] ''M:S:X'' = {} then None
       else Some (ACats (sorted_list_of_set (observed_categories [?a, ?b] ''M:S:X''))))
      = Some (ACats [''Beauty'', ''Gaming''])"
    by code_simp
  note T = aggregated_categories_order_independent[OF h, of "''M:S:X''"]
  have e1: "entry_categories (aggregate DAList.empty [?a, ?b]) ''M:S:X'' =
          entry_categories (aggregate DAList.empty [?b, ?a]) ''M:S:X''"
    using T by (rule conjunct1)
  have e2: "entry_categories (aggregate DAList.empty [?a, ?b]) ''M:S:X'' =
          Some (ACats [''Beauty'', ''Gaming''])"
    using T[THEN conjunct2, THEN conjunct1] oc by (rule trans)
  have e3: "entry_categories (aggregate DAList.empty [?b, ?a]) ''M:S:X'' =
          Some (ACats [''Beauty'', ''Gaming''])"
    using e1[symmetric] e2 by (rule trans)
  from h e2 e3 show ?thesis by (intro conjI)
qed

section \<open>The store and the change detector\<close>

lemma lookup_member:
  "(k, v) \<in> set (DAList.impl_of d) \<Longrightarrow> DAList.lookup d k = Some v"
  by (simp add: DAList.lookup.rep_eq)

lemma find_one_lookup:
  "find_one db query = Some (oid, doc) \<Longrightarrow> DAList.lookup db oid = Some doc"
  unfolding find_one_def
  by (rule lookup_member) (auto simp: find_Some_iff in_set_conv_nth)

lemma fold_max_ge: "(x::nat) \<in> set xs \<Longrightarrow> x \<le> fold max xs a"
proof (induction xs arbitrary: a)
  case Nil
  then show ?case by simp
next
  case (Cons y ys)
  have mono: "a \<le> fold max ys a" for a :: nat
    by (induction ys arbitrary: a) (auto intro: order_trans[OF max.cobounded2])
  from Cons show ?case
  proof (cases "x = y")
    case True
    then show ?thesis using mono[of "max y a"] by simp
  next
    case False
    with Cons show ?thesis by simp
  qed
qed

lemma fresh_oid_fresh: "DAList.lookup db (fresh_oid db) = None"
proof (rule ccontr)
  assume "DAList.lookup db (fresh_oid db) \<noteq> None"
  then obtain doc where "DAList.lookup db (fresh_oid db) = Some doc" by auto
  then have "(fresh_oid db, doc) \<in> set (DAList.impl_of db)"
    by (auto simp: DAList.lookup.rep_eq dest: map_of_SomeD)
  then have "(oid_bound \<circ> fst) (fresh_oid db, doc) \<in> (oid_bound \<circ> fst) ` set (DAList.impl_of db)"
    by (rule imageI)
  then have "oid_bound (fresh_oid db) \<in> set (map (oid_bound \<circ> fst) (DAList.impl_of db))"
    by simp
  then have "oid_bound (fresh_oid db) \<le> fold max (map (oid_bound \<circ> fst) (DAList.impl_of db)) 0"
    by (rule fold_max_ge)
  then show False by (simp add: fresh_oid_def)
qed

lemma lookup_delete_other: "f \<noteq> k \<Longrightarrow> DAList.lookup (DAList.delete k d) f = DAList.lookup d f"
  by simp

lemma insert_one_Inr:
  assumes "insert_one db doc = Inr db'"
  shows "\<exists>oid doc'. DAList.lookup db oid = None \<and> db' = DAList.update oid doc' db \<and>
           (\<forall>f. f \<noteq> ''_id'' \<longrightarrow> DAList.lookup doc' f = DAList.lookup doc f)"
proof (cases "DAList.lookup doc ''_id''")
  case None
  with assms have "db' = DAList.update (fresh_oid db) doc db"
    by (simp add: insert_one_def)
  then show ?thesis using fresh_oid_fresh by blast
next
  case (Some oid)
  with assms have "DAList.lookup db oid = None"
    and "db' = DAList.update oid (DAList.delete ''_id'' doc) db"
    by (auto simp: insert_one_def split: if_splits)
  then show ?thesis by (intro exI[of _ oid] exI[of _ "DAList.delete ''_id'' doc"]) simp
qed

lemma update_one_Inr:
  assumes "DAList.lookup db oid = Some doc" "update_one db oid document = Inr db'"
  shows "\<exists>doc'. db' = DAList.update oid doc' db \<and>
           (\<forall>f. DAList.lookup doc' f =
                  (if f = ''_id'' then DAList.lookup doc f
                   else case DAList.lookup document f of
                          None \<Rightarrow> DAList.lookup doc f
                        | Some v \<Rightarrow> Some v))"
proof (cases "DAList.lookup document ''_id''")
  case None
  with assms have "db' = DAList.update oid (set_fields doc (DAList.impl_of document)) db"
    by (simp add: update_one_def)
  moreover have "\<forall>f. DAList.lookup (set_fields doc (DAList.impl_of document)) f =
                  (if f = ''_id'' then DAList.lookup doc f
                   else case DAList.lookup document f of
                          None \<Rightarrow> DAList.lookup doc f
                        | Some v \<Rightarrow> Some v)"
    using None by (auto simp: set_fields_lookup DAList.lookup.rep_eq[symmetric])
  ultimately show ?thesis by blast
next
  case (Some oid')
  let ?d = "DAList.delete ''_id'' document"
  from Some assms have "db' = DAList.update oid (set_fields doc (DAList.impl_of ?d)) db"
    by (auto simp: update_one_def split: if_splits)
  moreover have "\<forall>f. DAList.lookup (set_fields doc (DAList.impl_of ?d)) f =
                  (if f = ''_id'' then DAList.lookup doc f
                   else case DAList.lookup document f of
                          None \<Rightarrow> DAList.lookup doc f
                        | Some v \<Rightarrow> Some v)"
    by (auto simp: set_fields_lookup DAList.lookup.rep_eq[symmetric])
  ultimately show ?thesis by blast
qed

lemma lookup_build_document:
  "DAList.lookup (build_document now deal categories) f =
     (if f = ''last_seen'' then Some (PTime now)
      else if f = ''categories'' then Some (PList (sorted_list_of_set categories))
      else map_option doc_val (DAList.lookup deal f))"
  by (simp add: build_document_def DAList.lookup_update lookup_to_document)

lemma existing_categories_eq:
  "existing_categories (Some (oid, doc)) = Inr S \<Longrightarrow> S = doc_categories doc \<and> finite S"
  by (auto simp: existing_categories_def doc_categories_def split: option.splits pyval.splits)

lemma existing_categories_None: "existing_categories None = Inr {}"
  by (simp add: existing_categories_def)

lemma add_categories_eq:
  "add_categories deal S = Inr C \<Longrightarrow> C = S \<union> deal_categories deal"
  by (auto simp: add_categories_def deal_categories_def Let_def
      split: option.splits aval.splits if_splits)

lemma finite_deal_categories: "finite (deal_categories deal)"
  by (auto simp: deal_categories_def split: option.splits aval.splits)

text \<open>Inversion of a successful call in the two branches.\<close>

lemma process_deal_new:
  assumes "process_deal fails now deal db = (Inr r, db')"
    and "DAList.lookup deal ''asin'' = Some asin"
    and "find_one db (build_query deal asin) = None"
  shows "r = (Some (DealChange ''New deal'' []), True) \<and>
         insert_one db (DAList.update ''first_seen'' (PTime now)
            (build_document now deal (deal_categories deal))) = Inr db'"
proof -
  from assms obtain C where C: "add_categories deal {} = Inr C"
    by (auto simp: process_deal_def Let_def existing_categories_None
        split: if_splits sum.splits)
  then have "C = deal_categories deal" by (auto dest: add_categories_eq)
  with assms C show ?thesis
    by (auto simp: process_deal_def Let_def existing_categories_None
        split: if_splits sum.splits)
qed

lemma process_deal_existing:
  assumes "process_deal fails now deal db = (Inr r, db')"
    and "DAList.lookup deal ''asin'' = Some asin"
    and "find_one db (build_query deal asin) = Some (oid, old)"
  shows "r = (if watch_diff fields_to_watch old deal \<noteq> []
              then Some (DealChange ''Updated deal'' (watch_diff fields_to_watch old deal))
              else None, False) \<and>
         update_one db oid
           (build_document now deal (doc_categories old \<union> deal_categories deal)) = Inr db'"
proof -
  from assms obtain S where S: "existing_categories (Some (oid, old)) = Inr S"
    by (auto simp: process_deal_def Let_def split: if_splits sum.splits)
  with assms obtain C where C: "add_categories deal S = Inr C"
    by (auto simp: process_deal_def Let_def split: if_splits sum.splits)
  have "C = doc_categories old \<union> deal_categories deal"
    using S C by (auto dest: add_categories_eq existing_categories_eq)
  with assms S C show ?thesis
    by (auto simp: process_deal_def Let_def split: if_splits sum.splits)
qed

lemma process_deal_Inl:
  "process_deal fails now deal db = (Inl e, db') \<Longrightarrow> db' = db"
  by (auto simp: process_deal_def Let_def split: option.splits if_splits sum.splits prod.splits)

lemma watch_diff_filter:
  "watch_diff watched old deal =
     map (\<lambda>f. (f, (DAList.lookup old f, map_option doc_val (DAList.lookup deal f))))
       (filter (\<lambda>f. DAList.lookup old f \<noteq> map_option doc_val (DAList.lookup deal f)) watched)"
  by (induction watched) (auto simp: Let_def)

lemma process_deal_existing_doc:
  assumes "process_deal fails now deal db = (Inr r, db')"
    and "DAList.lookup deal ''asin'' = Some asin"
    and "find_one db (build_query deal asin) = Some (oid, old)"
  shows "\<exists>doc'. db' = DAList.update oid doc' db \<and>
     (\<forall>f. DAList.lookup doc' f =
        (if f = ''_id'' then DAList.lookup old f
         else if f = ''last_seen'' then Some (PTime now)
         else if f = ''categories''
           then Some (PList (sorted_list_of_set (doc_categories old \<union> deal_categories deal)))
         else case DAList.lookup deal f of
                None \<Rightarrow> DAList.lookup old f
              | Some v \<Rightarrow> Some (doc_val v)))"
proof -
  have old: "DAList.lookup db oid = Some old" using assms(3) by (rule find_one_lookup)
  from process_deal_existing[OF assms]
  have "update_one db oid
           (build_document now deal (doc_categories old \<union> deal_categories deal)) = Inr db'"
    by simp
  from update_one_Inr[OF old this] obtain doc' where d: "db' = DAList.update oid doc' db"
    "\<forall>f. DAList.lookup doc' f =
        (if f = ''_id'' then DAList.lookup old f
         else case DAList.lookup
                (build_document now deal (doc_categories old \<union> deal_categories deal)) f of
                None \<Rightarrow> DAList.lookup old f
              | Some v \<Rightarrow> Some v)"
    by blast
  have "\<forall>f. DAList.lookup doc' f =
        (if f = ''_id'' then DAList.lookup old f
         else if f = ''last_seen'' then Some (PTime now)
         else if f = ''categories''
           then Some (PList (sorted_list_of_set (doc_categories old \<union> deal_categories deal)))
         else case DAList.lookup deal f of
                None \<Rightarrow> DAList.lookup old f
              | Some v \<Rightarrow> Some (doc_val v))"
    using d(2) by (auto simp: lookup_build_document split: option.splits)
  with d(1) show ?thesis by blast
qed

lemma process_deal_new_doc:
  assumes "process_deal fails now deal db = (Inr r, db')"
    and "DAList.lookup deal ''asin'' = Some asin"
    and "find_one db (build_query deal asin) = None"
  shows "\<exists>oid doc. DAList.lookup db oid = None \<and> db' = DAList.update oid doc db \<and>
     (\<forall>f. f \<noteq> ''_id'' \<longrightarrow> DAList.lookup doc f =
        (if f = ''first_seen'' then Some (PTime now)
         else if f = ''last_seen'' then Some (PTime now)
         else if f = ''categories''
           then Some (PList (sorted_list_of_set (deal_categories deal)))
         else map_option doc_val (DAList.lookup deal f)))"
proof -
  from process_deal_new[OF assms]
  have "insert_one db (DAList.update ''first_seen'' (PTime now)
            (build_document now deal (deal_categories deal))) = Inr db'"
    by simp
  from insert_one_Inr[OF this] obtain oid doc where d: "DAList.lookup db oid = None"
    "db' = DAList.update oid doc db"
    "\<forall>f. f \<noteq> ''_id'' \<longrightarrow> DAList.lookup doc f =
       DAList.lookup (DAList.update ''first_seen'' (PTime now)
            (build_document now deal (deal_categories deal))) f"
    by blast
  have "\<forall>f. f \<noteq> ''_id'' \<longrightarrow> DAList.lookup doc f =
        (if f = ''first_seen'' then Some (PTime now)
         else if f = ''last_seen'' then Some (PTime now)
         else if f = ''categories''
           then Some (PList (sorted_list_of_set (deal_categories deal)))
         else map_option doc_val (DAList.lookup deal f))"
    using d(3) by (auto simp: lookup_build_document DAList.lookup_update)
  with d(1,2) show ?thesis by blast
qed

lemma agg_wf_categories:
  "agg_wf deal \<Longrightarrow>
   Some (PList (sorted_list_of_set (deal_categories deal))) =
     map_option doc_val (DAList.lookup deal ''categories'')"
  by (auto simp: agg_wf_def sorted_list_of_set.idem_if_sorted_distinct
      split: option.splits aval.splits)

lemma agg_wf_iff:
  "agg_wf deal \<longleftrightarrow>
     (\<exists>cs. DAList.lookup deal ''categories'' = Some (ACats cs) \<and> sorted cs \<and> distinct cs \<and>
           category_part deal \<subseteq> set cs)"
  by (auto simp: agg_wf_def deal_categories_def category_part_def
      split: option.splits aval.splits)

lemma sorted_list_of_set_props:
  "finite A \<Longrightarrow>
   sorted (sorted_list_of_set A) \<and> distinct (sorted_list_of_set A) \<and>
   set (sorted_list_of_set A) = A"
  by simp

lemma agg_wf_first_observation:
  "agg_wf (first_observation m s b (obs_category (m, s, b, d)) d)"
proof -
  let ?e = "first_observation m s b (obs_category (m, s, b, d)) d"
  have c: "DAList.lookup ?e ''category'' = map_option AStr (DAList.lookup d ''category'')"
    by (rule first_observation_field) simp
  have "category_part ?e \<subseteq> {obs_category (m, s, b, d)}"
  proof (cases "DAList.lookup d ''category''")
    case None
    then have "DAList.lookup ?e ''category'' = None" using c by simp
    then show ?thesis by (simp add: category_part_def)
  next
    case (Some x)
    then have "DAList.lookup ?e ''category'' = Some (AStr x)" using c by simp
    moreover have "obs_category (m, s, b, d) = x" using Some by (simp add: obs_category_def)
    ultimately show ?thesis by (simp add: category_part_def)
  qed
  then show ?thesis
    by (simp add: agg_wf_iff first_observation_categories)
qed

lemma agg_wf_merge_observation:
  assumes "agg_wf stored"
  shows "agg_wf (merge_observation stored (obs_category (m, s, b, d)) d)"
proof -
  let ?c = "obs_category (m, s, b, d)"
  let ?e = "merge_observation stored ?c d"
  from assms obtain cs where cs: "DAList.lookup stored ''categories'' = Some (ACats cs)"
    "category_part stored \<subseteq> set cs"
    by (auto simp: agg_wf_iff)
  have cat: "DAList.lookup ?e ''categories'' =
      Some (ACats (sorted_list_of_set (insert ?c (set cs))))"
    by (simp add: merge_observation_categories cs)
  have f: "DAList.lookup ?e ''category'' =
     (if field_present d ''category'' then map_option AStr (DAList.lookup d ''category'')
      else DAList.lookup stored ''category'')"
    by (rule merge_observation_field) simp
  have "category_part ?e \<subseteq> insert ?c (set cs)"
  proof (cases "field_present d ''category''")
    case True
    then obtain x where x: "DAList.lookup d ''category'' = Some x"
      by (auto simp: field_present_def split: option.splits)
    then have "DAList.lookup ?e ''category'' = Some (AStr x)" using f True by simp
    moreover have "obs_category (m, s, b, d) = x" using x by (simp add: obs_category_def)
    ultimately show ?thesis by (simp add: category_part_def)
  next
    case False
    then have "category_part ?e = category_part stored"
      by (simp add: category_part_def f)
    with cs(2) show ?thesis by auto
  qed
  moreover have "sorted (sorted_list_of_set (insert ?c (set cs))) \<and>
      distinct (sorted_list_of_set (insert ?c (set cs))) \<and>
      set (sorted_list_of_set (insert ?c (set cs))) = insert ?c (set cs)"
    by (rule sorted_list_of_set_props) simp
  ultimately show ?thesis
    unfolding agg_wf_iff cat by blast
qed

lemma collect_deal_all_wf:
  assumes "all_wf col"
  shows "all_wf (collect_deal m s b col d)"
  unfolding all_wf_def
proof (intro allI impI)
  fix k e
  assume l: "DAList.lookup (collect_deal m s b col d) k = Some e"
  show "agg_wf e"
  proof (cases "obs_key (m, s, b, d) = Some k")
    case False
    then have "DAList.lookup col k = Some e"
      using l by (simp add: collect_deal_other_key)
    with assms show ?thesis by (auto simp: all_wf_def)
  next
    case True
    then obtain asin where asin: "DAList.lookup d ''asin'' = Some asin" "asin \<noteq> []"
      "asin \<noteq> ''N/A''" "k = deal_key m s asin"
      by (auto simp: obs_key_def split: option.splits if_splits)
    have c: "(case DAList.lookup d ''category'' of None \<Rightarrow> ''Unknown'' | Some c \<Rightarrow> c)
        = obs_category (m, s, b, d)"
      by (simp add: obs_category_def)
    show ?thesis
    proof (cases "DAList.lookup col k")
      case None
      then have "e = first_observation m s b (obs_category (m, s, b, d)) d"
        using l asin c by (simp add: collect_deal_def Let_def)
      then show ?thesis by (simp add: agg_wf_first_observation)
    next
      case (Some stored)
      with assms have w: "agg_wf stored" by (auto simp: all_wf_def)
      then have ne: "DAList.impl_of stored \<noteq> []"
        by (auto simp: agg_wf_iff dest: lookup_Some_nonempty)
      have "e = merge_observation stored (obs_category (m, s, b, d)) d"
        using l collect_deal_repeated[OF True Some ne] by simp
      with w show ?thesis by (simp add: agg_wf_merge_observation)
    qed
  qed
qed

lemma aggregate_all_wf: "all_wf col \<Longrightarrow> all_wf (aggregate col obs)"
proof (induction obs arbitrary: col)
  case Nil
  then show ?case by simp
next
  case (Cons ob obs)
  obtain m s b d where ob: "ob = (m, s, b, d)" by (cases ob) auto
  show ?case using Cons by (simp add: ob collect_deal_all_wf)
qed

lemma aggregated_listing_wf:
  "DAList.lookup (snd (scrape_sites scrape DAList.empty sites)) key = Some deal \<Longrightarrow> agg_wf deal"
proof -
  have "all_wf (DAList.empty :: (string, deal) alist)" by (simp add: all_wf_def)
  then have "all_wf (aggregate DAList.empty (observations scrape sites))"
    by (rule aggregate_all_wf)
  then show "DAList.lookup (snd (scrape_sites scrape DAList.empty sites)) key = Some deal \<Longrightarrow> agg_wf deal"
    by (auto simp: all_wf_def scrape_sites_aggregate)
qed

lemma stored_field_update:
  "stored_field (DAList.update oid doc db) oid f = DAList.lookup doc f"
  by (simp add: stored_field_def)

section \<open>Claims about the change detector\<close>

text \<open>
  C3. For a listing whose record is found in the store, \<^verbatim>\<open>process_deal\<close> returns an
  "Updated deal" change exactly when a watched field differs between the stored and the
  aggregated value; the watched fields are exactly the current price, and the change maps
  it to the pair of old and new value. With the stored price "10.00" and the aggregated
  price "8.00" the change is current_price: ("10.00", "8.00") and the stored price
  becomes "8.00".
\<close>

theorem change_detector_updated:
  assumes "process_deal fails now deal db = (Inr (change, is_new), db')"
    and "DAList.lookup deal ''asin'' = Some asin"
    and "find_one db (build_query deal asin) = Some (oid, old)"
  shows "fields_to_watch = [''current_price''] \<and> \<not> is_new \<and>
    (change \<noteq> None \<longleftrightarrow>
       DAList.lookup old ''current_price'' \<noteq>
         map_option doc_val (DAList.lookup deal ''current_price'')) \<and>
    (change \<noteq> None \<longrightarrow>
       change = Some (DealChange ''Updated deal''
         [(''current_price'',
           (DAList.lookup old ''current_price'',
            map_option doc_val (DAList.lookup deal ''current_price'')))])) \<and>
    (\<forall>v. DAList.lookup deal ''current_price'' = Some v \<longrightarrow>
       stored_field db' oid ''current_price'' = Some (doc_val v)) \<and>
    fst (process_deal never 2 (aggregated ''X'' ''Beauty'' ''8.00'')
          (store_of (stored_record ''X'' ''Beauty'' ''10.00'' 1)))
      = Inr (Some (DealChange ''Updated deal''
              [(''current_price'', (Some (PStr ''10.00''), Some (PStr ''8.00'')))]), False) \<and>
    stored_field
      (snd (process_deal never 2 (aggregated ''X'' ''Beauty'' ''8.00'')
          (store_of (stored_record ''X'' ''Beauty'' ''10.00'' 1))))
      (PId 0) ''current_price'' = Some (PStr ''8.00'')"
proof -
  note r = process_deal_existing[OF assms]
  from process_deal_existing_doc[OF assms] obtain doc' where
    d: "db' = DAList.update oid doc' db"
    "\<forall>f. DAList.lookup doc' f =
        (if f = ''_id'' then DAList.lookup old f
         else if f = ''last_seen'' then Some (PTime now)
         else if f = ''categories''
           then Some (PList (sorted_list_of_set (doc_categories old \<union> deal_categories deal)))
         else case DAList.lookup deal f of
                None \<Rightarrow> DAList.lookup old f
              | Some v \<Rightarrow> Some (doc_val v))"
    by blast
  have w: "watch_diff fields_to_watch old deal =
      (if DAList.lookup old ''current_price'' \<noteq>
            map_option doc_val (DAList.lookup deal ''current_price'')
       then [(''current_price'',
           (DAList.lookup old ''current_price'',
            map_option doc_val (DAList.lookup deal ''current_price'')))]
       else [])"
    by (simp add: fields_to_watch_def Let_def)
  have 1: "fields_to_watch = [''current_price'']" by (simp add: fields_to_watch_def)
  have 2: "\<not> is_new" using r by simp
  have 3: "change \<noteq> None \<longleftrightarrow>
       DAList.lookup old ''current_price'' \<noteq>
         map_option doc_val (DAList.lookup deal ''current_price'')"
    using r w by (auto split: if_splits)
  have 4: "change \<noteq> None \<longrightarrow>
       change = Some (DealChange ''Updated deal''
         [(''current_price'',
           (DAList.lookup old ''current_price'',
            map_option doc_val (DAList.lookup deal ''current_price'')))])"
    using r w by (auto split: if_splits)
  have 5: "\<forall>v. DAList.lookup deal ''current_price'' = Some v \<longrightarrow>
       stored_field db' oid ''current_price'' = Some (doc_val v)"
    using d by (simp add: stored_field_update)
  have 6: "fst (process_deal never 2 (aggregated ''X'' ''Beauty'' ''8.00'')
          (store_of (stored_record ''X'' ''Beauty'' ''10.00'' 1)))
      = Inr (Some (DealChange ''Updated deal''
              [(''current_price'', (Some (PStr ''10.00''), Some (PStr ''8.00'')))]), False)"
    by code_simp
  have 7: "stored_field
      (snd (process_deal never 2 (aggregated ''X'' ''Beauty'' ''8.00'')
          (store_of (stored_record ''X'' ''Beauty'' ''10.00'' 1))))
      (PId 0) ''current_price'' = Some (PStr ''8.00'')"
    by code_simp
  from 1 2 3 4 5 6 7 show ?thesis by blast
qed

text \<open>The scenario of C3 satisfies the hypotheses: the call succeeds, the listing has an
  item identifier and the record is found; the stored price is then "8.00".\<close>

theorem change_detector_updated_witness:
  "process_deal never 2 (aggregated ''X'' ''Beauty'' ''8.00'')
      (store_of (stored_record ''X'' ''Beauty'' ''10.00'' 1))
    = (Inr (Some (DealChange ''Updated deal''
                [(''current_price'', (Some (PStr ''10.00''), Some (PStr ''8.00'')))]), False),
       store_of (set_fields (stored_record ''X'' ''Beauty'' ''10.00'' 1)
         (DAList.impl_of (build_document 2 (aggregated ''X'' ''Beauty'' ''8.00'') {''Beauty''})))) \<and>
   DAList.lookup (aggregated ''X'' ''Beauty'' ''8.00'') ''asin'' = Some (AStr ''X'') \<and>
   find_one (store_of (stored_record ''X'' ''Beauty'' ''10.00'' 1))
      (build_query (aggregated ''X'' ''Beauty'' ''8.00'') (AStr ''X''))
    = Some (PId 0, stored_record ''X'' ''Beauty'' ''10.00'' 1) \<and>
   stored_field
     (store_of (set_fields (stored_record ''X'' ''Beauty'' ''10.00'' 1)
         (DAList.impl_of (build_document 2 (aggregated ''X'' ''Beauty'' ''8.00'') {''Beauty''}))))
     (PId 0) ''current_price'' = Some (PStr ''8.00'')"
proof -
  let ?deal = "aggregated ''X'' ''Beauty'' ''8.00''"
  let ?old = "stored_record ''X'' ''Beauty'' ''10.00'' 1"
  let ?db' = "store_of (set_fields ?old (DAList.impl_of (build_document 2 ?deal {''Beauty''})))"
  have h1: "process_deal never 2 ?deal (store_of ?old)
    = (Inr (Some (DealChange ''Updated deal''
                [(''current_price'', (Some (PStr ''10.00''), Some (PStr ''8.00'')))]), False), ?db')"
    by code_simp
  have h2: "DAList.lookup ?deal ''asin'' = Some (AStr ''X'')" by code_simp
  have h3: "find_one (store_of ?old) (build_query ?deal (AStr ''X'')) = Some (PId 0, ?old)"
    by code_simp
  have p: "DAList.lookup ?deal ''current_price'' = Some (AStr ''8.00'')" by code_simp
  note T = change_detector_updated[OF h1 h2 h3]
  from T have "\<forall>v. DAList.lookup ?deal ''current_price'' = Some v \<longrightarrow>
       stored_field ?db' (PId 0) ''current_price'' = Some (doc_val v)"
    by blast
  with p have "stored_field ?db' (PId 0) ''current_price'' = Some (PStr ''8.00'')"
    by simp
  with h1 h2 h3 show ?thesis by (intro conjI)
qed

lemma stored_field_update_other:
  "o' \<noteq> oid \<Longrightarrow> DAList.lookup (DAList.update oid doc db) o' = DAList.lookup db o'"
  by simp

text \<open>
  C4. For a listing with no record in the store, \<^verbatim>\<open>process_deal\<close> inserts a new
  document under an unused identifier and leaves every other document alone. Its
  categories are the sorted labels the listing brings, which for a listing built by the
  aggregator is the listing's own category list; its other fields are the listing's;
  \<^verbatim>\<open>first_seen\<close> and \<^verbatim>\<open>last_seen\<close> are both the current time. The call returns the change
  "New deal" with no changed fields and reports the listing as new.
\<close>

theorem change_detector_new:
  assumes "process_deal fails now deal db = (Inr (change, is_new), db')"
    and "DAList.lookup deal ''asin'' = Some asin"
    and "find_one db (build_query deal asin) = None"
  shows "change = Some (DealChange ''New deal'' []) \<and> is_new \<and>
    (\<exists>oid. DAList.lookup db oid = None \<and>
       (\<forall>other. other \<noteq> oid \<longrightarrow> DAList.lookup db' other = DAList.lookup db other) \<and>
       stored_field db' oid ''categories'' =
         Some (PList (sorted_list_of_set (deal_categories deal))) \<and>
       (agg_wf deal \<longrightarrow>
          stored_field db' oid ''categories'' =
            map_option doc_val (DAList.lookup deal ''categories'')) \<and>
       stored_field db' oid ''first_seen'' = Some (PTime now) \<and>
       stored_field db' oid ''last_seen'' = Some (PTime now) \<and>
       (\<forall>f. f \<notin> {''_id'', ''categories'', ''first_seen'', ''last_seen''} \<longrightarrow>
          stored_field db' oid f = map_option doc_val (DAList.lookup deal f)))"
proof -
  note r = process_deal_new[OF assms]
  from process_deal_new_doc[OF assms] obtain oid doc where
    d: "DAList.lookup db oid = None" "db' = DAList.update oid doc db"
    "\<forall>f. f \<noteq> ''_id'' \<longrightarrow> DAList.lookup doc f =
        (if f = ''first_seen'' then Some (PTime now)
         else if f = ''last_seen'' then Some (PTime now)
         else if f = ''categories''
           then Some (PList (sorted_list_of_set (deal_categories deal)))
         else map_option doc_val (DAList.lookup deal f))"
    by blast
  have 1: "change = Some (DealChange ''New deal'' [])" and 2: "is_new" using r by simp_all
  have 3: "\<forall>other. other \<noteq> oid \<longrightarrow> DAList.lookup db' other = DAList.lookup db other"
    using d(2) by simp
  have 4: "stored_field db' oid ''categories'' =
         Some (PList (sorted_list_of_set (deal_categories deal)))"
    using d(2,3) by (simp add: stored_field_update)
  have 5: "agg_wf deal \<longrightarrow>
          stored_field db' oid ''categories'' =
            map_option doc_val (DAList.lookup deal ''categories'')"
    using 4 agg_wf_categories[of deal] by simp
  have 6: "stored_field db' oid ''first_seen'' = Some (PTime now)"
    using d(2,3) by (simp add: stored_field_update)
  have 7: "stored_field db' oid ''last_seen'' = Some (PTime now)"
    using d(2,3) by (simp add: stored_field_update)
  have 8: "\<forall>f. f \<notin> {''_id'', ''categories'', ''first_seen'', ''last_seen''} \<longrightarrow>
          stored_field db' oid f = map_option doc_val (DAList.lookup deal f)"
    using d(2,3) by (simp add: stored_field_update)
  from 1 2 d(1) 3 4 5 6 7 8 show ?thesis by blast
qed

text \<open>The first sighting of the listing "X" on an empty store.\<close>

theorem change_detector_new_witness:
  "process_deal never 2 (aggregated ''X'' ''Beauty'' ''8.00'') DAList.empty
     = (Inr (Some (DealChange ''New deal'' []), True),
        DAList.update (PId 0)
          (DAList.update ''first_seen'' (PTime 2)
            (build_document 2 (aggregated ''X'' ''Beauty'' ''8.00'') {''Beauty''}))
          DAList.empty) \<and>
   DAList.lookup (aggregated ''X'' ''Beauty'' ''8.00'') ''asin'' = Some (AStr ''X'') \<and>
   find_one DAList.empty (build_query (aggregated ''X'' ''Beauty'' ''8.00'') (AStr ''X'')) = None \<and>
   agg_wf (aggregated ''X'' ''Beauty'' ''8.00'') \<and>
   (\<exists>oid.
      stored_field
        (DAList.update (PId 0)
          (DAList.update ''first_seen'' (PTime 2)
            (build_document 2 (aggregated ''X'' ''Beauty'' ''8.00'') {''Beauty''}))
          DAList.empty) oid ''categories'' = Some (PList [''Beauty'']) \<and>
      stored_field
        (DAList.update (PId 0)
          (DAList.update ''first_seen'' (PTime 2)
            (build_document 2 (aggregated ''X'' ''Beauty'' ''8.00'') {''Beauty''}))
          DAList.empty) oid ''first_seen'' = Some (PTime 2) \<and>
      stored_field
        (DAList.update (PId 0)
          (DAList.update ''first_seen'' (PTime 2)
            (build_document 2 (aggregated ''X'' ''Beauty'' ''8.00'') {''Beauty''}))
          DAList.empty) oid ''last_seen'' = Some (PTime 2))"
proof -
  let ?deal = "aggregated ''X'' ''Beauty'' ''8.00''"
  let ?db' = "DAList.update (PId 0)
          (DAList.update ''first_seen'' (PTime 2) (build_document 2 ?deal {''Beauty''}))
          DAList.empty"
  have h1: "process_deal never 2 ?deal DAList.empty
     = (Inr (Some (DealChange ''New deal'' []), True), ?db')"
    by code_simp
  have h2: "DAList.lookup ?deal ''asin'' = Some (AStr ''X'')" by code_simp
  have h3: "find_one DAList.empty (build_query ?deal (AStr ''X'')) = None" by code_simp
  have w: "agg_wf ?deal" by code_simp
  have c: "map_option doc_val (DAList.lookup ?deal ''categories'') = Some (PList [''Beauty''])"
    by code_simp
  from change_detector_new[OF h1 h2 h3] obtain oid where
    o: "agg_wf ?deal \<longrightarrow>
          stored_field ?db' oid ''categories'' =
            map_option doc_val (DAList.lookup ?deal ''categories'')"
      "stored_field ?db' oid ''first_seen'' = Some (PTime 2)"
      "stored_field ?db' oid ''last_seen'' = Some (PTime 2)"
    by blast
  from o(1) w c have "stored_field ?db' oid ''categories'' = Some (PList [''Beauty''])"
    by simp
  with o(2,3) have "\<exists>oid. stored_field ?db' oid ''categories'' = Some (PList [''Beauty'']) \<and>
      stored_field ?db' oid ''first_seen'' = Some (PTime 2) \<and>
      stored_field ?db' oid ''last_seen'' = Some (PTime 2)"
    by blast
  with h1 h2 h3 w show ?thesis by (intro conjI)
qed

lemma process_deal_existing_succeeds:
  assumes "DAList.lookup deal ''asin'' = Some asin"
    and "find_one db (build_query deal asin) = Some (oid, old)"
    and "\<not> fails FindOne" and "\<not> fails UpdateOne"
    and "existing_categories (Some (oid, old)) = Inr S"
    and "add_categories deal S = Inr C"
    and "DAList.lookup deal ''_id'' = None"
  shows "\<exists>change db'. process_deal fails now deal db = (Inr (change, False), db')"
proof -
  have old: "DAList.lookup db oid = Some old" using assms(2) by (rule find_one_lookup)
  have "DAList.lookup (build_document now deal C) ''_id'' = None"
    using assms(7) by (simp add: lookup_build_document)
  then have "\<exists>db'. update_one db oid (build_document now deal C) = Inr db'"
    using old by (simp add: update_one_def)
  then show ?thesis
    using assms by (auto simp: process_deal_def Let_def)
qed

text \<open>
  C6. Every reconciliation of a listing whose record is found persists the record, whether
  or not a change is returned: when no store call raises (and the categories are of the
  types the program writes), \<^verbatim>\<open>process_deal\<close> returns normally, the stored
  \<^verbatim>\<open>last_seen\<close> is the current time, \<^verbatim>\<open>first_seen\<close> is what it was, and no change is
  returned exactly when the watched price does not differ.
\<close>

theorem reconciliation_persists:
  assumes "DAList.lookup deal ''asin'' = Some asin"
    and "find_one db (build_query deal asin) = Some (oid, old)"
    and "\<not> fails FindOne" and "\<not> fails UpdateOne"
    and "existing_categories (Some (oid, old)) = Inr S"
    and "add_categories deal S = Inr C"
    and "DAList.lookup deal ''_id'' = None"
    and "DAList.lookup deal ''first_seen'' = None"
  shows "\<exists>change db'.
      process_deal fails now deal db = (Inr (change, False), db') \<and>
      stored_field db' oid ''last_seen'' = Some (PTime now) \<and>
      stored_field db' oid ''first_seen'' = DAList.lookup old ''first_seen'' \<and>
      (change = None \<longleftrightarrow>
         DAList.lookup old ''current_price'' =
           map_option doc_val (DAList.lookup deal ''current_price''))"
proof -
  from process_deal_existing_succeeds[OF assms(1-7)] obtain change db' where
    ok: "process_deal fails now deal db = (Inr (change, False), db')"
    by blast
  note r = process_deal_existing[OF ok assms(1,2)]
  from process_deal_existing_doc[OF ok assms(1,2)] obtain doc' where
    d: "db' = DAList.update oid doc' db"
    "\<forall>f. DAList.lookup doc' f =
        (if f = ''_id'' then DAList.lookup old f
         else if f = ''last_seen'' then Some (PTime now)
         else if f = ''categories''
           then Some (PList (sorted_list_of_set (doc_categories old \<union> deal_categories deal)))
         else case DAList.lookup deal f of
                None \<Rightarrow> DAList.lookup old f
              | Some v \<Rightarrow> Some (doc_val v))"
    by blast
  have 1: "stored_field db' oid ''last_seen'' = Some (PTime now)"
    using d by (simp add: stored_field_update)
  have 2: "stored_field db' oid ''first_seen'' = DAList.lookup old ''first_seen''"
    using d assms(8) by (simp add: stored_field_update)
  have w: "watch_diff fields_to_watch old deal = [] \<longleftrightarrow>
      DAList.lookup old ''current_price'' =
           map_option doc_val (DAList.lookup deal ''current_price'')"
    by (simp add: fields_to_watch_def Let_def)
  have 3: "change = None \<longleftrightarrow>
         DAList.lookup old ''current_price'' =
           map_option doc_val (DAList.lookup deal ''current_price'')"
    using r w by (auto split: if_splits)
  from ok 1 2 3 show ?thesis by blast
qed

text \<open>The listing "X" is seen again at the stored price "10.00" at time 2: no change is
  returned, \<^verbatim>\<open>last_seen\<close> becomes 2 and \<^verbatim>\<open>first_seen\<close> stays 1.\<close>

theorem reconciliation_persists_witness:
  "DAList.lookup (aggregated ''X'' ''Beauty'' ''10.00'') ''asin'' = Some (AStr ''X'') \<and>
   find_one (store_of (stored_record ''X'' ''Beauty'' ''10.00'' 1))
      (build_query (aggregated ''X'' ''Beauty'' ''10.00'') (AStr ''X''))
    = Some (PId 0, stored_record ''X'' ''Beauty'' ''10.00'' 1) \<and>
   \<not> never FindOne \<and> \<not> never UpdateOne \<and>
   existing_categories (Some (PId 0, stored_record ''X'' ''Beauty'' ''10.00'' 1))
     = Inr {''Beauty''} \<and>
   add_categories (aggregated ''X'' ''Beauty'' ''10.00'') {''Beauty''} = Inr {''Beauty''} \<and>
   DAList.lookup (aggregated ''X'' ''Beauty'' ''10.00'') ''_id'' = None \<and>
   DAList.lookup (aggregated ''X'' ''Beauty'' ''10.00'') ''first_seen'' = None \<and>
   (\<exists>db'. process_deal never 2 (aggregated ''X'' ''Beauty'' ''10.00'')
            (store_of (stored_record ''X'' ''Beauty'' ''10.00'' 1)) = (Inr (None, False), db') \<and>
      stored_field db' (PId 0) ''last_seen'' = Some (PTime 2) \<and>
      stored_field db' (PId 0) ''first_seen'' = Some (PTime 1))"
proof -
  let ?deal = "aggregated ''X'' ''Beauty'' ''10.00''"
  let ?old = "stored_record ''X'' ''Beauty'' ''10.00'' 1"
  have h1: "DAList.lookup ?deal ''asin'' = Some (AStr ''X'')" by code_simp
  have h2: "find_one (store_of ?old) (build_query ?deal (AStr ''X'')) = Some (PId 0, ?old)"
    by code_simp
  have h3: "\<not> never FindOne" and h4: "\<not> never UpdateOne" by (simp_all add: never_def)
  have h5: "existing_categories (Some (PId 0, ?old)) = Inr {''Beauty''}"
    by (simp add: existing_categories_def stored_record_def)
  have h6: "add_categories ?deal {''Beauty''} = Inr {''Beauty''}"
    by (simp add: add_categories_def aggregated_def first_observation_def listing_def
        lookup_dict_of)
  have h7: "DAList.lookup ?deal ''_id'' = None" by code_simp
  have h8: "DAList.lookup ?deal ''first_seen'' = None" by code_simp
  have p1: "DAList.lookup ?old ''first_seen'' = Some (PTime 1)" by code_simp
  have p2: "DAList.lookup ?old ''current_price'' =
           map_option doc_val (DAList.lookup ?deal ''current_price'')"
    by code_simp
  from reconciliation_persists[OF h1 h2 h3 h4 h5 h6 h7 h8, of 2] obtain change db' where
    r: "process_deal never 2 ?deal (store_of ?old) = (Inr (change, False), db')"
      "stored_field db' (PId 0) ''last_seen'' = Some (PTime 2)"
      "stored_field db' (PId 0) ''first_seen'' = DAList.lookup ?old ''first_seen''"
      "change = None \<longleftrightarrow>
         DAList.lookup ?old ''current_price'' =
           map_option doc_val (DAList.lookup ?deal ''current_price'')"
    by blast
  from r(4) p2 have "change = None" by simp
  with r(1,2,3) p1 have "\<exists>db'. process_deal never 2 ?deal (store_of ?old) = (Inr (None, False), db') \<and>
      stored_field db' (PId 0) ''last_seen'' = Some (PTime 2) \<and>
      stored_field db' (PId 0) ''first_seen'' = Some (PTime 1)"
    by auto
  with h1 h2 h3 h4 h5 h6 h7 h8 show ?thesis by (intro conjI)
qed

text \<open>
  C1 (as stated) fails at store reconciliation: the record of "X" holds the price "10.00",
  the aggregated listing carries the absent marker "N/A" for the price, and after
  \<^verbatim>\<open>process_deal\<close> the stored price is "N/A".
\<close>

theorem absent_overwrites_stored_counterexample:
  "stored_field (store_of (stored_record ''X'' ''Beauty'' ''10.00'' 1)) (PId 0) ''current_price''
     = Some (PStr ''10.00'') \<and>
   DAList.lookup (aggregated ''X'' ''Beauty'' ''N/A'') ''current_price'' = Some (AStr ''N/A'') \<and>
   find_one (store_of (stored_record ''X'' ''Beauty'' ''10.00'' 1))
      (build_query (aggregated ''X'' ''Beauty'' ''N/A'') (AStr ''X''))
     = Some (PId 0, stored_record ''X'' ''Beauty'' ''10.00'' 1) \<and>
   stored_field
     (snd (process_deal never 2 (aggregated ''X'' ''Beauty'' ''N/A'')
            (store_of (stored_record ''X'' ''Beauty'' ''10.00'' 1))))
     (PId 0) ''current_price'' = Some (PStr ''N/A'')"
proof (intro conjI)
  show "stored_field (store_of (stored_record ''X'' ''Beauty'' ''10.00'' 1)) (PId 0) ''current_price''
     = Some (PStr ''10.00'')"
    by code_simp
  show "DAList.lookup (aggregated ''X'' ''Beauty'' ''N/A'') ''current_price'' = Some (AStr ''N/A'')"
    by code_simp
  show "find_one (store_of (stored_record ''X'' ''Beauty'' ''10.00'' 1))
      (build_query (aggregated ''X'' ''Beauty'' ''N/A'') (AStr ''X''))
     = Some (PId 0, stored_record ''X'' ''Beauty'' ''10.00'' 1)"
    by code_simp
  show "stored_field
     (snd (process_deal never 2 (aggregated ''X'' ''Beauty'' ''N/A'')
            (store_of (stored_record ''X'' ''Beauty'' ''10.00'' 1))))
     (PId 0) ''current_price'' = Some (PStr ''N/A'')"
    by code_simp
qed

text \<open>
  C1, amended. In the in-cycle merge an absent value (empty or "N/A") of a repeated
  observation never overwrites the value collected so far. At store reconciliation every
  field that the aggregated listing carries is written over the stored one, whatever its
  value; a stored value is kept only for a field the listing does not carry.
\<close>

theorem absent_value_precedence:
  assumes "obs_key (m, s, b, d) = Some key"
    and "DAList.lookup collected key = Some stored"
    and "DAList.impl_of stored \<noteq> []"
    and "process_deal fails now deal db = (Inr r, db')"
    and "DAList.lookup deal ''asin'' = Some asin"
    and "find_one db (build_query deal asin) = Some (oid, old)"
  shows "(\<forall>field. field \<noteq> ''categories'' \<and> \<not> field_present d field \<longrightarrow>
            entry_field (collect_deal m s b collected d) key field = DAList.lookup stored field) \<and>
         (\<forall>f. f \<notin> {''_id'', ''last_seen'', ''categories''} \<longrightarrow>
            stored_field db' oid f =
              (case DAList.lookup deal f of
                 None \<Rightarrow> DAList.lookup old f
               | Some v \<Rightarrow> Some (doc_val v)))"
proof (intro conjI)
  show "\<forall>field. field \<noteq> ''categories'' \<and> \<not> field_present d field \<longrightarrow>
            entry_field (collect_deal m s b collected d) key field = DAList.lookup stored field"
    using collect_deal_repeated[OF assms(1-3)]
    by (simp add: entry_field_def merge_observation_field)
  from process_deal_existing_doc[OF assms(4-6)] obtain doc' where
    d: "db' = DAList.update oid doc' db"
    "\<forall>f. DAList.lookup doc' f =
        (if f = ''_id'' then DAList.lookup old f
         else if f = ''last_seen'' then Some (PTime now)
         else if f = ''categories''
           then Some (PList (sorted_list_of_set (doc_categories old \<union> deal_categories deal)))
         else case DAList.lookup deal f of
                None \<Rightarrow> DAList.lookup old f
              | Some v \<Rightarrow> Some (doc_val v))"
    by blast
  then show "\<forall>f. f \<notin> {''_id'', ''last_seen'', ''categories''} \<longrightarrow>
            stored_field db' oid f =
              (case DAList.lookup deal f of
                 None \<Rightarrow> DAList.lookup old f
               | Some v \<Rightarrow> Some (doc_val v))"
    by (simp add: stored_field_update)
qed

text \<open>In the cycle, "X" seen in "Beauty" at "10.00" and again in "Gaming" at "N/A" keeps
  the price "10.00"; reconciling the listing of price "N/A" against the record of price
  "10.00" stores "N/A" and keeps \<^verbatim>\<open>first_seen\<close>.\<close>

theorem absent_value_precedence_witness:
  "obs_key (''M'', ''S'', ''U'', listing ''X'' ''Gaming'' ''N/A'') = Some ''M:S:X'' \<and>
   DAList.lookup
     (collect_deal ''M'' ''S'' ''U'' DAList.empty (listing ''X'' ''Beauty'' ''10.00'')) ''M:S:X''
     = Some (aggregated ''X'' ''Beauty'' ''10.00'') \<and>
   DAList.impl_of (aggregated ''X'' ''Beauty'' ''10.00'') \<noteq> [] \<and>
   process_deal never 2 (aggregated ''X'' ''Beauty'' ''N/A'')
      (store_of (stored_record ''X'' ''Beauty'' ''10.00'' 1))
    = (Inr (Some (DealChange ''Updated deal''
                [(''current_price'', (Some (PStr ''10.00''), Some (PStr ''N/A'')))]), False),
       store_of (set_fields (stored_record ''X'' ''Beauty'' ''10.00'' 1)
         (DAList.impl_of (build_document 2 (aggregated ''X'' ''Beauty'' ''N/A'') {''Beauty''})))) \<and>
   DAList.lookup (aggregated ''X'' ''Beauty'' ''N/A'') ''asin'' = Some (AStr ''X'') \<and>
   find_one (store_of (stored_record ''X'' ''Beauty'' ''10.00'' 1))
      (build_query (aggregated ''X'' ''Beauty'' ''N/A'') (AStr ''X''))
     = Some (PId 0, stored_record ''X'' ''Beauty'' ''10.00'' 1) \<and>
   entry_field
     (collect_deal ''M'' ''S'' ''U''
        (collect_deal ''M'' ''S'' ''U'' DAList.empty (listing ''X'' ''Beauty'' ''10.00''))
        (listing ''X'' ''Gaming'' ''N/A'')) ''M:S:X'' ''current_price'' = Some (AStr ''10.00'') \<and>
   stored_field
     (store_of (set_fields (stored_record ''X'' ''Beauty'' ''10.00'' 1)
         (DAList.impl_of (build_document 2 (aggregated ''X'' ''Beauty'' ''N/A'') {''Beauty''}))))
     (PId 0) ''current_price'' = Some (PStr ''N/A'') \<and>
   stored_field
     (store_of (set_fields (stored_record ''X'' ''Beauty'' ''10.00'' 1)
         (DAList.impl_of (build_document 2 (aggregated ''X'' ''Beauty'' ''N/A'') {''Beauty''}))))
     (PId 0) ''first_seen'' = Some (PTime 1)"
proof -
  let ?d1 = "listing ''X'' ''Beauty'' ''10.00''"
  let ?d2 = "listing ''X'' ''Gaming'' ''N/A''"
  let ?col = "collect_deal ''M'' ''S'' ''U'' DAList.empty ?d1"
  let ?st = "aggregated ''X'' ''Beauty'' ''10.00''"
  let ?deal = "aggregated ''X'' ''Beauty'' ''N/A''"
  let ?old = "stored_record ''X'' ''Beauty'' ''10.00'' 1"
  let ?db' = "store_of (set_fields ?old (DAList.impl_of (build_document 2 ?deal {''Beauty''})))"
  have h1: "obs_key (''M'', ''S'', ''U'', ?d2) = Some ''M:S:X''"
    by (simp add: obs_key_def listing_def deal_key_def)
  have h2: "DAList.lookup ?col ''M:S:X'' = Some ?st"
    by (simp add: collect_deal_def listing_def deal_key_def aggregated_def)
  have h3: "DAList.impl_of ?st \<noteq> []"
    by (simp add: aggregated_def first_observation_def DAList.update.rep_eq)
  have h4: "process_deal never 2 ?deal (store_of ?old)
    = (Inr (Some (DealChange ''Updated deal''
                [(''current_price'', (Some (PStr ''10.00''), Some (PStr ''N/A'')))]), False), ?db')"
    by code_simp
  have h5: "DAList.lookup ?deal ''asin'' = Some (AStr ''X'')" by code_simp
  have h6: "find_one (store_of ?old) (build_query ?deal (AStr ''X'')) = Some (PId 0, ?old)"
    by code_simp
  have p1: "\<not> field_present ?d2 ''current_price''"
    by (simp add: field_present_def listing_def)
  have p2: "DAList.lookup ?st ''current_price'' = Some (AStr ''10.00'')" by code_simp
  have p3: "DAList.lookup ?deal ''current_price'' = Some (AStr ''N/A'')" by code_simp
  have p4: "DAList.lookup ?deal ''first_seen'' = None" by code_simp
  have p5: "DAList.lookup ?old ''first_seen'' = Some (PTime 1)" by code_simp
  note T = absent_value_precedence[OF h1 h2 h3 h4 h5 h6]
  from T have a: "\<forall>field. field \<noteq> ''categories'' \<and> \<not> field_present ?d2 field \<longrightarrow>
            entry_field (collect_deal ''M'' ''S'' ''U'' ?col ?d2) ''M:S:X'' field
              = DAList.lookup ?st field"
    by (rule conjunct1)
  from T have b: "\<forall>f. f \<notin> {''_id'', ''last_seen'', ''categories''} \<longrightarrow>
            stored_field ?db' (PId 0) f =
              (case DAList.lookup ?deal f of
                 None \<Rightarrow> DAList.lookup ?old f
               | Some v \<Rightarrow> Some (doc_val v))"
    by (rule conjunct2)
  have c1: "entry_field (collect_deal ''M'' ''S'' ''U'' ?col ?d2) ''M:S:X'' ''current_price''
      = Some (AStr ''10.00'')"
    using a p1 p2 by simp
  have c2: "stored_field ?db' (PId 0) ''current_price'' = Some (PStr ''N/A'')"
    using b p3 by simp
  have c3: "stored_field ?db' (PId 0) ''first_seen'' = Some (PTime 1)"
    using b p4 p5 by simp
  from h1 h2 h3 h4 h5 h6 c1 c2 c3 show ?thesis by (intro conjI)
qed

section \<open>Categories across cycles\<close>

lemma cats_grow_refl: "cats_grow db db"
  by (simp add: cats_grow_def)

lemma cats_grow_trans: "cats_grow a b \<Longrightarrow> cats_grow b c \<Longrightarrow> cats_grow a c"
  unfolding cats_grow_def by (meson subset_trans)

lemma cats_grow_insert:
  "DAList.lookup db oid = None \<Longrightarrow> cats_grow db (DAList.update oid doc db)"
  unfolding cats_grow_def by (auto simp: DAList.lookup_update)

lemma cats_grow_update:
  "DAList.lookup db oid = Some old \<Longrightarrow> doc_categories old \<subseteq> doc_categories doc' \<Longrightarrow>
   cats_grow db (DAList.update oid doc' db)"
  unfolding cats_grow_def by (auto simp: DAList.lookup_update)

lemma finite_doc_categories: "finite (doc_categories doc)"
  by (auto simp: doc_categories_def split: option.splits pyval.splits)

lemma doc_categories_PList:
  "DAList.lookup doc ''categories'' = Some (PList (sorted_list_of_set A)) \<Longrightarrow> finite A \<Longrightarrow>
   doc_categories doc = A"
  by (simp add: doc_categories_def)

lemma process_deal_existing_categories:
  assumes "process_deal fails now deal db = (Inr r, db')"
    and "DAList.lookup deal ''asin'' = Some asin"
    and "find_one db (build_query deal asin) = Some (oid, old)"
  shows "\<exists>doc'. db' = DAList.update oid doc' db \<and>
           doc_categories doc' = doc_categories old \<union> deal_categories deal"
proof -
  from process_deal_existing_doc[OF assms] obtain doc' where
    d: "db' = DAList.update oid doc' db"
    "\<forall>f. DAList.lookup doc' f =
        (if f = ''_id'' then DAList.lookup old f
         else if f = ''last_seen'' then Some (PTime now)
         else if f = ''categories''
           then Some (PList (sorted_list_of_set (doc_categories old \<union> deal_categories deal)))
         else case DAList.lookup deal f of
                None \<Rightarrow> DAList.lookup old f
              | Some v \<Rightarrow> Some (doc_val v))"
    by blast
  from d(2) have "DAList.lookup doc' ''categories'' =
      Some (PList (sorted_list_of_set (doc_categories old \<union> deal_categories deal)))"
    by simp
  then have "doc_categories doc' = doc_categories old \<union> deal_categories deal"
    by (rule doc_categories_PList) (simp add: finite_doc_categories finite_deal_categories)
  with d(1) show ?thesis by blast
qed

lemma process_deal_cats_grow: "cats_grow db (snd (process_deal fails now deal db))"
proof -
  obtain res db' where p: "process_deal fails now deal db = (res, db')"
    by (cases "process_deal fails now deal db") auto
  show ?thesis
  proof (cases res)
    case (Inl e)
    with p have "db' = db" by (auto dest: process_deal_Inl)
    with p show ?thesis by (simp add: cats_grow_refl)
  next
    case (Inr r)
    with p have ok: "process_deal fails now deal db = (Inr r, db')" by simp
    then obtain asin where asin: "DAList.lookup deal ''asin'' = Some asin"
      by (cases "DAList.lookup deal ''asin''") (auto simp: process_deal_def)
    show ?thesis
    proof (cases "find_one db (build_query deal asin)")
      case None
      from process_deal_new_doc[OF ok asin None] obtain oid doc where
        "DAList.lookup db oid = None" "db' = DAList.update oid doc db"
        by blast
      then show ?thesis using p by (simp add: cats_grow_insert)
    next
      case (Some a)
      obtain oid old where a: "a = (oid, old)" by (cases a) auto
      with Some have f: "find_one db (build_query deal asin) = Some (oid, old)" by simp
      have old: "DAList.lookup db oid = Some old" using f by (rule find_one_lookup)
      from process_deal_existing_categories[OF ok asin f] obtain doc' where
        "db' = DAList.update oid doc' db"
        "doc_categories doc' = doc_categories old \<union> deal_categories deal"
        by blast
      then show ?thesis using p old by (simp add: cats_grow_update)
    qed
  qed
qed

lemma process_deals_cats_grow:
  "cats_grow db (fst (snd (process_deals sf clock deals (db, ns, cs))))"
proof (induction deals arbitrary: db ns cs)
  case Nil
  then show ?case by (simp add: cats_grow_refl)
next
  case (Cons deal deals)
  obtain res db' where p: "process_deal (sf deal) (clock deal) deal db = (res, db')"
    by (cases "process_deal (sf deal) (clock deal) deal db") auto
  have g: "cats_grow db db'"
    using process_deal_cats_grow[of db "sf deal" "clock deal" deal] p by simp
  show ?case
  proof (cases res)
    case (Inl e)
    then show ?thesis using p Cons.IH by simp
  next
    case (Inr r)
    obtain change is_new where r: "r = (change, is_new)" by (cases r) auto
    show ?thesis
    proof (cases "if is_new then count_new deal cs else Inr cs")
      case (Inl e)
      then show ?thesis using p Inr r g by simp
    next
      case (Inr cs')
      have "cats_grow db' (fst (snd (process_deals sf clock deals
              (db', (case change of None \<Rightarrow> ns | Some c \<Rightarrow> ns @ [(deal, c)]), cs'))))"
        by (rule Cons.IH)
      with g have "cats_grow db (fst (snd (process_deals sf clock deals
              (db', (case change of None \<Rightarrow> ns | Some c \<Rightarrow> ns @ [(deal, c)]), cs'))))"
        by (rule cats_grow_trans)
      then show ?thesis using p \<open>res = Inr r\<close> r Inr by simp
    qed
  qed
qed

lemma scrape_and_process_cats_grow:
  "cats_grow db (fst (snd (scrape_and_process E sites (db, ch))))"
proof -
  let ?col = "snd (scrape_sites (env_scrape E) DAList.empty sites)"
  obtain res db' ns cs where
    p: "process_deals (env_store_fails E) (env_clock E) (map snd (DAList.impl_of ?col))
          (db, [], DAList.empty) = (res, (db', ns, cs))"
    by (metis prod_cases3)
  have g: "cats_grow db db'"
    using process_deals_cats_grow[of db "env_store_fails E" "env_clock E"
        "map snd (DAList.impl_of ?col)" "[]" DAList.empty] p by simp
  show ?thesis
    using g p
    by (auto simp: scrape_and_process_def Let_def cats_grow_refl split: option.splits prod.splits)
qed

lemma run_cycles_cats_grow: "cats_grow db (fst (run_cycles cycles (db, ch)))"
proof (induction cycles arbitrary: db ch)
  case Nil
  then show ?case by (simp add: cats_grow_refl)
next
  case (Cons c cycles)
  obtain E sites where c: "c = (E, sites)" by (cases c) auto
  obtain res db' ch' where s: "scrape_and_process E sites (db, ch) = (res, db', ch')"
    by (metis prod_cases3)
  have "cats_grow db db'"
    using scrape_and_process_cats_grow[of db E sites ch] s by simp
  moreover have "cats_grow db' (fst (run_cycles cycles (db', ch')))" by (rule Cons.IH)
  ultimately show ?case using c s by (auto intro: cats_grow_trans)
qed

text \<open>
  C5. Reconciling a listing with its stored record persists the union of the stored and
  the aggregated categories, a superset of what was stored. Hence over any number of
  cycles, whatever the scraper, the store and the notifier do, every document of the store
  keeps at least the categories it had, also when a cycle no longer lists the item under
  one of them.
\<close>

theorem categories_never_shrink:
  assumes "process_deal fails now deal db = (Inr r, db')"
    and "DAList.lookup deal ''asin'' = Some asin"
    and "find_one db (build_query deal asin) = Some (oid, old)"
  shows "(\<exists>doc'. DAList.lookup db' oid = Some doc' \<and>
            doc_categories doc' = doc_categories old \<union> deal_categories deal \<and>
            doc_categories old \<subseteq> doc_categories doc') \<and>
         (\<forall>cycles ch. cats_grow db (fst (run_cycles cycles (db, ch))))"
proof (intro conjI allI)
  from process_deal_existing_categories[OF assms] obtain doc' where
    "db' = DAList.update oid doc' db"
    "doc_categories doc' = doc_categories old \<union> deal_categories deal"
    by blast
  then show "\<exists>doc'. DAList.lookup db' oid = Some doc' \<and>
            doc_categories doc' = doc_categories old \<union> deal_categories deal \<and>
            doc_categories old \<subseteq> doc_categories doc'"
    by auto
  show "cats_grow db (fst (run_cycles cycles (db, ch)))" for cycles ch
    by (rule run_cycles_cats_grow)
qed

text \<open>The record of "X" holds the category "Beauty"; a cycle that lists "X" only under
  "Gaming" leaves it with both.\<close>

theorem categories_never_shrink_witness:
  "process_deal never 2 (aggregated ''X'' ''Gaming'' ''10.00'')
      (store_of (stored_record ''X'' ''Beauty'' ''10.00'' 1))
    = (Inr (None, False),
       store_of (set_fields (stored_record ''X'' ''Beauty'' ''10.00'' 1)
         (DAList.impl_of
            (build_document 2 (aggregated ''X'' ''Gaming'' ''10.00'') {''Beauty'', ''Gaming''})))) \<and>
   DAList.lookup (aggregated ''X'' ''Gaming'' ''10.00'') ''asin'' = Some (AStr ''X'') \<and>
   find_one (store_of (stored_record ''X'' ''Beauty'' ''10.00'' 1))
      (build_query (aggregated ''X'' ''Gaming'' ''10.00'') (AStr ''X''))
    = Some (PId 0, stored_record ''X'' ''Beauty'' ''10.00'' 1) \<and>
   doc_categories (stored_record ''X'' ''Beauty'' ''10.00'' 1) = {''Beauty''} \<and>
   (\<exists>doc'. DAList.lookup
       (store_of (set_fields (stored_record ''X'' ''Beauty'' ''10.00'' 1)
         (DAList.impl_of
            (build_document 2 (aggregated ''X'' ''Gaming'' ''10.00'') {''Beauty'', ''Gaming''}))))
       (PId 0) = Some doc' \<and>
      doc_categories doc' = {''Beauty'', ''Gaming''})"
proof -
  let ?deal = "aggregated ''X'' ''Gaming'' ''10.00''"
  let ?old = "stored_record ''X'' ''Beauty'' ''10.00'' 1"
  let ?db' = "store_of (set_fields ?old
         (DAList.impl_of (build_document 2 ?deal {''Beauty'', ''Gaming''})))"
  have h1: "process_deal never 2 ?deal (store_of ?old) = (Inr (None, False), ?db')"
    by code_simp
  have h2: "DAList.lookup ?deal ''asin'' = Some (AStr ''X'')" by code_simp
  have h3: "find_one (store_of ?old) (build_query ?deal (AStr ''X'')) = Some (PId 0, ?old)"
    by code_simp
  have p1: "doc_categories ?old = {''Beauty''}"
    by (simp add: doc_categories_def stored_record_def)
  have p2: "deal_categories ?deal = {''Gaming''}"
    by (simp add: deal_categories_def aggregated_def first_observation_def listing_def
        lookup_dict_of)
  from categories_never_shrink[OF h1 h2 h3] obtain doc' where
    d: "DAList.lookup ?db' (PId 0) = Some doc'"
      "doc_categories doc' = doc_categories ?old \<union> deal_categories ?deal"
    by blast
  from d(2) p1 p2 have "doc_categories doc' = {''Beauty'', ''Gaming''}" by auto
  with d(1) have "\<exists>doc'. DAList.lookup ?db' (PId 0) = Some doc' \<and>
      doc_categories doc' = {''Beauty'', ''Gaming''}"
    by blast
  with h1 h2 h3 p1 show ?thesis by (intro conjI)
qed

section \<open>Failure isolation and notification\<close>

lemma categories_raise_skip:
  "scrape c m b s = ScrapeRaises exc \<Longrightarrow>
   categories_raise scrape m s b (xs @ c # ys) = categories_raise scrape m s b (xs @ ys)"
  by (induction xs) (auto split: scrape_result.splits)

lemma category_observations_skip:
  "scrape c m b s = ScrapeRaises exc \<Longrightarrow>
   category_observations scrape m s b (xs @ c # ys) =
     category_observations scrape m s b (xs @ ys)"
  by (induction xs) (auto split: scrape_result.splits)

lemma process_deals_append:
  "process_deals sf clock (xs @ ys) st =
     (case process_deals sf clock xs st of
        (Some exc, st') \<Rightarrow> (Some exc, st')
      | (None, st') \<Rightarrow> process_deals sf clock ys st')"
proof (induction xs arbitrary: st)
  case Nil
  then show ?case by simp
next
  case (Cons deal xs)
  obtain db ns cs where st: "st = (db, ns, cs)" by (cases st) auto
  show ?case
    unfolding st
    by (auto simp: Cons.IH split: prod.splits sum.splits option.splits)
qed

lemma process_deal_fails:
  assumes "fails FindOne \<or> (fails InsertOne \<and> fails UpdateOne)"
  shows "\<exists>exc. process_deal fails now deal db = (Inl exc, db)"
proof (cases "DAList.lookup deal ''asin''")
  case None
  then show ?thesis by (simp add: process_deal_def)
next
  case (Some asin)
  show ?thesis
  proof (cases "fails FindOne")
    case True
    then show ?thesis using Some by (simp add: process_deal_def)
  next
    case False
    with assms have w: "fails InsertOne" "fails UpdateOne" by auto
    show ?thesis
      using Some False w
      by (auto simp: process_deal_def Let_def split: sum.splits option.splits)
  qed
qed

lemma process_deals_skip:
  assumes "fst (process_deal (sf deal) (clock deal) deal db) = Inl exc"
  shows "process_deals sf clock (deal # later) (db, ns, cs) =
           process_deals sf clock later (db, ns, cs)"
proof -
  obtain r db' where p: "process_deal (sf deal) (clock deal) deal db = (r, db')"
    by (cases "process_deal (sf deal) (clock deal) deal db") auto
  with assms have "r = Inl exc" by simp
  with p show ?thesis by simp
qed

text \<open>
  An exception of \<^verbatim>\<open>scraper.scrape()\<close> for one category, and any exception of
  \<^verbatim>\<open>process_deal\<close> for one listing (a failed read or a failed write of the store), are
  caught where they happen: the loops go on exactly as if the category had not been
  configured and the listing had not been collected. In the scenario the call of
  \<^verbatim>\<open>scrape\<close> for "Books" raises and the listing found under "Beauty" is still stored
  and notified.
\<close>

theorem failure_isolation:
  assumes "scrape category marketplace_id base_url site_name = ScrapeRaises exc"
    and "process_deals sf clock earlier st = (None, db', ns', cs')"
    and "fst (process_deal (sf deal) (clock deal) deal db') = Inl exc'"
  shows "scrape_categories scrape marketplace_id site_name base_url collected
        (earlier_cats @ category # later_cats) =
      scrape_categories scrape marketplace_id site_name base_url collected
        (earlier_cats @ later_cats) \<and>
    process_deals sf clock (earlier @ deal # later) st =
      process_deals sf clock (earlier @ later) st \<and>
    scrape_and_process (example_env (\<lambda>n. Sent)) [example_site [''Books'', ''Beauty'']]
        (DAList.empty, idle_channel) =
      scrape_and_process (example_env (\<lambda>n. Sent)) [example_site [''Beauty'']]
        (DAList.empty, idle_channel) \<and>
    fst (scrape_and_process (example_env (\<lambda>n. Sent)) [example_site [''Books'', ''Beauty'']]
        (DAList.empty, idle_channel)) = None \<and>
    delivered (snd (snd (scrape_and_process (example_env (\<lambda>n. Sent))
        [example_site [''Books'', ''Beauty'']] (DAList.empty, idle_channel)))) =
      [(aggregated ''X'' ''Beauty'' ''8.00'', DealChange ''New deal'' [])] \<and>
    stored_field (fst (snd (scrape_and_process (example_env (\<lambda>n. Sent))
        [example_site [''Books'', ''Beauty'']] (DAList.empty, idle_channel))))
      (PId 0) ''asin'' = Some (PStr ''X'')"
proof (intro conjI)
  show "scrape_categories scrape marketplace_id site_name base_url collected
        (earlier_cats @ category # later_cats) =
      scrape_categories scrape marketplace_id site_name base_url collected
        (earlier_cats @ later_cats)"
    using assms(1)
    by (simp add: scrape_categories_aggregate categories_raise_skip category_observations_skip)
  show "process_deals sf clock (earlier @ deal # later) st =
      process_deals sf clock (earlier @ later) st"
  proof -
    note skip = process_deals_skip[of sf deal clock db' exc' later ns' cs', OF assms(3)]
    show ?thesis
      unfolding process_deals_append[of sf clock earlier] assms(2)
      by (simp only: prod.case option.case skip)
  qed
  show "scrape_and_process (example_env (\<lambda>n. Sent)) [example_site [''Books'', ''Beauty'']]
        (DAList.empty, idle_channel) =
      scrape_and_process (example_env (\<lambda>n. Sent)) [example_site [''Beauty'']]
        (DAList.empty, idle_channel)"
    by (simp add: scrape_and_process_def example_env_def example_site_def example_scrape_def)
  show "fst (scrape_and_process (example_env (\<lambda>n. Sent)) [example_site [''Books'', ''Beauty'']]
        (DAList.empty, idle_channel)) = None"
    by code_simp
  show "delivered (snd (snd (scrape_and_process (example_env (\<lambda>n. Sent))
        [example_site [''Books'', ''Beauty'']] (DAList.empty, idle_channel)))) =
      [(aggregated ''X'' ''Beauty'' ''8.00'', DealChange ''New deal'' [])]"
    by code_simp
  show "stored_field (fst (snd (scrape_and_process (example_env (\<lambda>n. Sent))
        [example_site [''Books'', ''Beauty'']] (DAList.empty, idle_channel))))
      (PId 0) ''asin'' = Some (PStr ''X'')"
    by code_simp
qed

text \<open>The call of \<^verbatim>\<open>scrape\<close> for "Books" raises between "Beauty" and "Gaming"; and the
  insert of the new listing "Y" raises, a lone failed write, before "X" is processed.\<close>

theorem failure_isolation_witness:
  "example_scrape ''Books'' ''M'' ''U'' ''S'' = ScrapeRaises ScrapeError \<and>
   process_deals (failing_for (aggregated ''Y'' ''Beauty'' ''5.00'')) (\<lambda>deal. 2) []
       (DAList.empty, [], DAList.empty) = (None, DAList.empty, [], DAList.empty) \<and>
   fst (process_deal
          (failing_for (aggregated ''Y'' ''Beauty'' ''5.00'') (aggregated ''Y'' ''Beauty'' ''5.00''))
          2 (aggregated ''Y'' ''Beauty'' ''5.00'') DAList.empty) = Inl StoreError \<and>
   scrape_categories example_scrape ''M'' ''S'' ''U'' DAList.empty [''Beauty'', ''Books'', ''Gaming''] =
     scrape_categories example_scrape ''M'' ''S'' ''U'' DAList.empty [''Beauty'', ''Gaming''] \<and>
   process_deals (failing_for (aggregated ''Y'' ''Beauty'' ''5.00'')) (\<lambda>deal. 2)
       [aggregated ''Y'' ''Beauty'' ''5.00'', aggregated ''X'' ''Beauty'' ''8.00'']
       (DAList.empty, [], DAList.empty) =
     process_deals (failing_for (aggregated ''Y'' ''Beauty'' ''5.00'')) (\<lambda>deal. 2)
       [aggregated ''X'' ''Beauty'' ''8.00'']
       (DAList.empty, [], DAList.empty)"
proof -
  let ?bad = "aggregated ''Y'' ''Beauty'' ''5.00''"
  have h1: "example_scrape ''Books'' ''M'' ''U'' ''S'' = ScrapeRaises ScrapeError"
    by (simp add: example_scrape_def)
  have h2: "process_deals (failing_for ?bad) (\<lambda>deal. 2) []
       (DAList.empty, [], DAList.empty) = (None, DAList.empty, [], DAList.empty)"
    by simp
  have h3: "fst (process_deal (failing_for ?bad ?bad) 2 ?bad DAList.empty) = Inl StoreError"
    by code_simp
  note T = failure_isolation[where scrape = example_scrape and category = "''Books''"
      and marketplace_id = "''M''" and base_url = "''U''" and site_name = "''S''"
      and exc = ScrapeError and sf = "failing_for ?bad" and deal = ?bad
      and collected = DAList.empty and earlier_cats = "[''Beauty'']"
      and later_cats = "[''Gaming'']" and clock = "\<lambda>deal. 2" and earlier = "[]"
      and later = "[aggregated ''X'' ''Beauty'' ''8.00'']"
      and st = "(DAList.empty, [], DAList.empty)" and db' = DAList.empty and ns' = "[]"
      and cs' = DAList.empty and exc' = StoreError, OF h1 h2 h3]
  from T have a: "scrape_categories example_scrape ''M'' ''S'' ''U'' DAList.empty
        ([''Beauty''] @ ''Books'' # [''Gaming'']) =
      scrape_categories example_scrape ''M'' ''S'' ''U'' DAList.empty ([''Beauty''] @ [''Gaming''])"
    by (rule conjunct1)
  from T have b: "process_deals (failing_for ?bad) (\<lambda>deal. 2)
       ([] @ ?bad # [aggregated ''X'' ''Beauty'' ''8.00'']) (DAList.empty, [], DAList.empty) =
     process_deals (failing_for ?bad) (\<lambda>deal. 2)
       ([] @ [aggregated ''X'' ''Beauty'' ''8.00'']) (DAList.empty, [], DAList.empty)"
    by (rule conjunct2[THEN conjunct1])
  from a have a': "scrape_categories example_scrape ''M'' ''S'' ''U'' DAList.empty
        [''Beauty'', ''Books'', ''Gaming''] =
      scrape_categories example_scrape ''M'' ''S'' ''U'' DAList.empty [''Beauty'', ''Gaming'']"
    by (simp only: append_Cons append_Nil)
  from b have b': "process_deals (failing_for ?bad) (\<lambda>deal. 2)
       [?bad, aggregated ''X'' ''Beauty'' ''8.00''] (DAList.empty, [], DAList.empty) =
     process_deals (failing_for ?bad) (\<lambda>deal. 2)
       [aggregated ''X'' ''Beauty'' ''8.00''] (DAList.empty, [], DAList.empty)"
    by (simp only: append_Cons append_Nil)
  from h1 h2 h3 a' b' show ?thesis by (intro conjI)
qed

text \<open>
  C8 does not hold of the cycle: the scraper is constructed at lines 234-239, before the
  \<^verbatim>\<open>try\<close> of line 240, so an exception of the constructor for one (site, category) is not
  caught. The site "S" is scraped and yields the listing "X"; the constructor then raises
  for the site whose base URL is "http://[". The exception ends the cycle: nothing is
  stored and nothing is notified, while the cycle over the site "S" alone stores and
  notifies "X".
\<close>

theorem constructor_failure_aborts_cycle:
  "fst (scrape_and_process url_checking_env [example_site [''Beauty''], malformed_site]
        (DAList.empty, idle_channel)) = Some ValueError \<and>
   DAList.impl_of (fst (snd (scrape_and_process url_checking_env
        [example_site [''Beauty''], malformed_site] (DAList.empty, idle_channel)))) = [] \<and>
   delivered (snd (snd (scrape_and_process url_checking_env
        [example_site [''Beauty''], malformed_site] (DAList.empty, idle_channel)))) = [] \<and>
   fst (scrape_and_process url_checking_env [example_site [''Beauty'']]
        (DAList.empty, idle_channel)) = None \<and>
   stored_field (fst (snd (scrape_and_process url_checking_env [example_site [''Beauty'']]
        (DAList.empty, idle_channel)))) (PId 0) ''asin'' = Some (PStr ''X'') \<and>
   delivered (snd (snd (scrape_and_process url_checking_env [example_site [''Beauty'']]
        (DAList.empty, idle_channel)))) =
      [(aggregated ''X'' ''Beauty'' ''8.00'', DealChange ''New deal'' [])]"
proof (intro conjI)
  show "fst (scrape_and_process url_checking_env [example_site [''Beauty''], malformed_site]
        (DAList.empty, idle_channel)) = Some ValueError"
    by code_simp
  show "DAList.impl_of (fst (snd (scrape_and_process url_checking_env
        [example_site [''Beauty''], malformed_site] (DAList.empty, idle_channel)))) = []"
    by code_simp
  show "delivered (snd (snd (scrape_and_process url_checking_env
        [example_site [''Beauty''], malformed_site] (DAList.empty, idle_channel)))) = []"
    by code_simp
  show "fst (scrape_and_process url_checking_env [example_site [''Beauty'']]
        (DAList.empty, idle_channel)) = None"
    by code_simp
  show "stored_field (fst (snd (scrape_and_process url_checking_env [example_site [''Beauty'']]
        (DAList.empty, idle_channel)))) (PId 0) ''asin'' = Some (PStr ''X'')"
    by code_simp
  show "delivered (snd (snd (scrape_and_process url_checking_env [example_site [''Beauty'']]
        (DAList.empty, idle_channel)))) =
      [(aggregated ''X'' ''Beauty'' ''8.00'', DealChange ''New deal'' [])]"
    by code_simp
qed

lemma notify_change_retry_ok:
  assumes "ready ch" "outcome (attempts ch) = HTTPError 429" "outcome (Suc (attempts ch)) = Sent"
  shows "notify_change outcome deal change ch =
     (None, ch\<lparr>attempts := attempts ch + 2, delivered := delivered ch @ [(deal, change)],
               slept_ms := slept_ms ch + 5500\<rparr>)"
  using assms by (simp add: notify_change_def send_def sleep_def)

lemma notify_change_retry_fails:
  assumes "ready ch" "outcome (attempts ch) = HTTPError 429" "outcome (Suc (attempts ch)) \<noteq> Sent"
  shows "notify_change outcome deal change ch =
     (send_error (outcome (Suc (attempts ch))),
      ch\<lparr>attempts := attempts ch + 2, slept_ms := slept_ms ch + 5000\<rparr>)"
  using assms
  by (cases "outcome (Suc (attempts ch))")
    (simp_all add: notify_change_def send_def sleep_def send_error_def)

text \<open>
  When the send of a notification is answered with the rate-limit status 429,
  \<^verbatim>\<open>notify_change\<close> sleeps 5 seconds and sends once more, and that is all: exactly two
  calls of \<^verbatim>\<open>send\<close>, whatever the retry gives. If the retry succeeds the notification is
  delivered and the call sleeps its usual half second; if not, nothing is delivered and
  the exception of the retry is the result.
\<close>

theorem notification_retry_once:
  assumes "ready ch" and "outcome (attempts ch) = HTTPError 429"
  shows "\<exists>ch'. notify_change outcome deal change ch =
           (send_error (outcome (Suc (attempts ch))), ch') \<and>
      attempts ch' = attempts ch + 2 \<and>
      (outcome (Suc (attempts ch)) = Sent \<longrightarrow>
         delivered ch' = delivered ch @ [(deal, change)] \<and>
         slept_ms ch' = slept_ms ch + 5500) \<and>
      (outcome (Suc (attempts ch)) \<noteq> Sent \<longrightarrow>
         send_error (outcome (Suc (attempts ch))) \<noteq> None \<and>
         delivered ch' = delivered ch \<and>
         slept_ms ch' = slept_ms ch + 5000)"
proof (cases "outcome (Suc (attempts ch)) = Sent")
  case True
  then show ?thesis
    using notify_change_retry_ok[OF assms True, of deal change]
    by (simp add: send_error_def)
next
  case False
  then have "send_error (outcome (Suc (attempts ch))) \<noteq> None"
    by (cases "outcome (Suc (attempts ch))") (simp_all add: send_error_def)
  then show ?thesis
    using False notify_change_retry_fails[OF assms False, of deal change]
    by simp
qed

text \<open>On an idle channel, with the notifier that is rate-limited once, the notification
  of "X" is delivered by the second call of \<^verbatim>\<open>send\<close>.\<close>

theorem notification_retry_once_witness:
  "ready idle_channel \<and>
   limited_once (attempts idle_channel) = HTTPError 429 \<and>
   fst (notify_change limited_once (aggregated ''X'' ''Beauty'' ''8.00'')
          (DealChange ''New deal'' []) idle_channel) = None \<and>
   attempts (snd (notify_change limited_once (aggregated ''X'' ''Beauty'' ''8.00'')
          (DealChange ''New deal'' []) idle_channel)) = 2 \<and>
   delivered (snd (notify_change limited_once (aggregated ''X'' ''Beauty'' ''8.00'')
          (DealChange ''New deal'' []) idle_channel)) =
     [(aggregated ''X'' ''Beauty'' ''8.00'', DealChange ''New deal'' [])] \<and>
   slept_ms (snd (notify_change limited_once (aggregated ''X'' ''Beauty'' ''8.00'')
          (DealChange ''New deal'' []) idle_channel)) = 5500"
proof -
  let ?d = "aggregated ''X'' ''Beauty'' ''8.00''"
  let ?c = "DealChange ''New deal'' []"
  have h1: "ready idle_channel" by (simp add: idle_channel_def)
  have h2: "limited_once (attempts idle_channel) = HTTPError 429"
    by (simp add: idle_channel_def limited_once_def)
  have h3: "limited_once (Suc (attempts idle_channel)) = Sent"
    by (simp add: idle_channel_def limited_once_def)
  have i: "attempts idle_channel = 0" "delivered idle_channel = []" "slept_ms idle_channel = 0"
    by (simp_all add: idle_channel_def)
  from notification_retry_once[where ch = idle_channel and outcome = limited_once
      and deal = ?d and change = ?c, OF h1 h2]
  obtain ch' where
    r: "notify_change limited_once ?d ?c idle_channel =
           (send_error (limited_once (Suc (attempts idle_channel))), ch')"
      "attempts ch' = attempts idle_channel + 2"
      "limited_once (Suc (attempts idle_channel)) = Sent \<longrightarrow>
         delivered ch' = delivered idle_channel @ [(?d, ?c)] \<and>
         slept_ms ch' = slept_ms idle_channel + 5500"
    by blast
  have e: "send_error (limited_once (Suc (attempts idle_channel))) = None"
    by (simp add: h3 send_error_def)
  have f: "fst (notify_change limited_once ?d ?c idle_channel) = None"
    and s: "snd (notify_change limited_once ?d ?c idle_channel) = ch'"
    unfolding r(1) e by simp_all
  have a: "attempts ch' = 2" using r(2) i by simp
  have d: "delivered ch' = [(?d, ?c)]" and sl: "slept_ms ch' = 5500"
    using r(3) h3 i by simp_all
  show ?thesis
    unfolding s using h1 h2 f a d sl by (intro conjI)
qed

text \<open>
  C9 does not hold of the cycle. The retry is there: one more call of \<^verbatim>\<open>send\<close> after 5
  seconds. But the loop \<^verbatim>\<open>for deal, change in notifications\<close> (lines 327-328) has no
  handler, unlike the two loops before it. Both listings "X" and "Y" are new and stored;
  the send for "X" is rate-limited, and so is its one retry. The exception of the retry
  ends the cycle: the notification for "Y" is never attempted, although the notifier would
  have accepted it.
\<close>

theorem retry_failure_aborts_cycle:
  "fst (scrape_and_process limited_env [example_site [''Beauty'']] (DAList.empty, idle_channel))
     = Some (HTTPException 429) \<and>
   stored_field
     (fst (snd (scrape_and_process limited_env [example_site [''Beauty'']]
        (DAList.empty, idle_channel)))) (PId 1) ''asin'' = Some (PStr ''Y'') \<and>
   delivered
     (snd (snd (scrape_and_process limited_env [example_site [''Beauty'']]
        (DAList.empty, idle_channel)))) = [] \<and>
   attempts
     (snd (snd (scrape_and_process limited_env [example_site [''Beauty'']]
        (DAList.empty, idle_channel)))) = 2 \<and>
   limited_twice 2 = Sent"
proof (intro conjI)
  show "fst (scrape_and_process limited_env [example_site [''Beauty'']] (DAList.empty, idle_channel))
     = Some (HTTPException 429)"
    by code_simp
  show "stored_field
     (fst (snd (scrape_and_process limited_env [example_site [''Beauty'']]
        (DAList.empty, idle_channel)))) (PId 1) ''asin'' = Some (PStr ''Y'')"
    by code_simp
  show "delivered
     (snd (snd (scrape_and_process limited_env [example_site [''Beauty'']]
        (DAList.empty, idle_channel)))) = []"
    by code_simp
  show "attempts
     (snd (snd (scrape_and_process limited_env [example_site [''Beauty'']]
        (DAList.empty, idle_channel)))) = 2"
    by code_simp
  show "limited_twice 2 = Sent"
    by (simp add: limited_twice_def)
qed

section \<open>The identity key\<close>

lemma colon_split:
  "CHR '':'' \<notin> set x \<Longrightarrow> CHR '':'' \<notin> set y \<Longrightarrow>
   x @ CHR '':'' # r = y @ CHR '':'' # r' \<Longrightarrow> x = y \<and> r = r'"
proof (induction x arbitrary: y)
  case Nil
  then show ?case by (cases y) auto
next
  case (Cons a x)
  then show ?case by (cases y) auto
qed

lemma deal_key_eq_iff:
  assumes "CHR '':'' \<notin> set marketplace_id" and "CHR '':'' \<notin> set site_name"
    and "CHR '':'' \<notin> set marketplace_id'" and "CHR '':'' \<notin> set site_name'"
  shows "deal_key marketplace_id site_name asin = deal_key marketplace_id' site_name' asin' \<longleftrightarrow>
         (marketplace_id, site_name, asin) = (marketplace_id', site_name', asin')"
proof
  assume "deal_key marketplace_id site_name asin = deal_key marketplace_id' site_name' asin'"
  then have e: "marketplace_id @ CHR '':'' # (site_name @ CHR '':'' # asin) =
      marketplace_id' @ CHR '':'' # (site_name' @ CHR '':'' # asin')"
    by (simp add: deal_key_def)
  from colon_split[OF assms(1,3) e]
  have m: "marketplace_id = marketplace_id'"
    and r: "site_name @ CHR '':'' # asin = site_name' @ CHR '':'' # asin'"
    by simp_all
  from colon_split[OF assms(2,4) r] m
  show "(marketplace_id, site_name, asin) = (marketplace_id', site_name', asin')"
    by simp
next
  assume "(marketplace_id, site_name, asin) = (marketplace_id', site_name', asin')"
  then show "deal_key marketplace_id site_name asin = deal_key marketplace_id' site_name' asin'"
    by simp
qed

lemma obs_key_identity:
  assumes "CHR '':'' \<notin> set m'" and "CHR '':'' \<notin> set s'"
    and "CHR '':'' \<notin> set m" and "CHR '':'' \<notin> set s"
  shows "obs_key (m', s', b, d) = Some (deal_key m s asin) \<longleftrightarrow>
         obs_identity (m', s', b, d) = Some (m, s, asin)"
  by (auto simp: obs_key_def obs_identity_def deal_key_eq_iff[OF assms] split: option.splits)

lemma obs_key_identity_set:
  assumes "\<forall>ob \<in> set obs. CHR '':'' \<notin> set (fst ob) \<and> CHR '':'' \<notin> set (fst (snd ob))"
    and "CHR '':'' \<notin> set m" and "CHR '':'' \<notin> set s" and "ob \<in> set obs"
  shows "obs_key ob = Some (deal_key m s asin) \<longleftrightarrow> obs_identity ob = Some (m, s, asin)"
proof -
  obtain m' s' b d where ob: "ob = (m', s', b, d)" by (cases ob) auto
  from assms(1,4) ob have c: "CHR '':'' \<notin> set m'" "CHR '':'' \<notin> set s'" by auto
  show ?thesis unfolding ob by (rule obs_key_identity[OF c assms(2,3)])
qed

lemma observed_categories_identity:
  assumes "\<forall>ob \<in> set obs. CHR '':'' \<notin> set (fst ob) \<and> CHR '':'' \<notin> set (fst (snd ob))"
    and "CHR '':'' \<notin> set m" and "CHR '':'' \<notin> set s"
  shows "observed_categories obs (deal_key m s asin) = identity_categories obs (m, s, asin)"
proof -
  have "filter (\<lambda>ob. obs_key ob = Some (deal_key m s asin)) obs =
        filter (\<lambda>ob. obs_identity ob = Some (m, s, asin)) obs"
    using obs_key_identity_set[OF assms] by (intro filter_cong) auto
  then show ?thesis by (simp add: observed_categories_def identity_categories_def)
qed

text \<open>
  The key of line 265 identifies the triple as long as neither the marketplace identifier
  nor the site name contains a colon.
\<close>

theorem deal_key_injective:
  assumes "CHR '':'' \<notin> set marketplace_id" and "CHR '':'' \<notin> set site_name"
    and "CHR '':'' \<notin> set marketplace_id'" and "CHR '':'' \<notin> set site_name'"
  shows "deal_key marketplace_id site_name asin = deal_key marketplace_id' site_name' asin' \<longleftrightarrow>
         (marketplace_id, site_name, asin) = (marketplace_id', site_name', asin')"
  using assms by (rule deal_key_eq_iff)

theorem deal_key_injective_witness:
  "CHR '':'' \<notin> set ''M'' \<and> CHR '':'' \<notin> set ''S'' \<and> CHR '':'' \<notin> set ''M2'' \<and>
   deal_key ''M'' ''S'' ''X'' \<noteq> deal_key ''M2'' ''S'' ''X''"
proof -
  have h1: "CHR '':'' \<notin> set ''M''" and h2: "CHR '':'' \<notin> set ''S''"
    and h3: "CHR '':'' \<notin> set ''M2''"
    by simp_all
  from deal_key_injective[OF h1 h2 h3 h2, of "''X''" "''X''"]
  have "deal_key ''M'' ''S'' ''X'' \<noteq> deal_key ''M2'' ''S'' ''X''" by simp
  with h1 h2 h3 show ?thesis by (intro conjI)
qed

text \<open>
  C10 does not hold of the aggregator: the key is the colon-joined string of the triple,
  so the distinct triples ("A:B", "C", "X") and ("A", "B:C", "X") have the same key
  "A:B:C:X". Their listings are merged into one entry, which carries the categories of
  both and the price of the second, under the site of the first.
\<close>

theorem identity_key_collision:
  "(''A:B'', ''C'', ''X'') \<noteq> (''A'', ''B:C'', ''X'') \<and>
   deal_key ''A:B'' ''C'' ''X'' = deal_key ''A'' ''B:C'' ''X'' \<and>
   map fst (DAList.impl_of (aggregate DAList.empty
      [(''A:B'', ''C'', ''U'', listing ''X'' ''Beauty'' ''10.00''),
       (''A'', ''B:C'', ''U'', listing ''X'' ''Gaming'' ''8.00'')])) = [''A:B:C:X''] \<and>
   entry_categories (aggregate DAList.empty
      [(''A:B'', ''C'', ''U'', listing ''X'' ''Beauty'' ''10.00''),
       (''A'', ''B:C'', ''U'', listing ''X'' ''Gaming'' ''8.00'')]) ''A:B:C:X''
     = Some (ACats [''Beauty'', ''Gaming'']) \<and>
   entry_field (aggregate DAList.empty
      [(''A:B'', ''C'', ''U'', listing ''X'' ''Beauty'' ''10.00''),
       (''A'', ''B:C'', ''U'', listing ''X'' ''Gaming'' ''8.00'')]) ''A:B:C:X'' ''current_price''
     = Some (AStr ''8.00'') \<and>
   entry_field (aggregate DAList.empty
      [(''A:B'', ''C'', ''U'', listing ''X'' ''Beauty'' ''10.00''),
       (''A'', ''B:C'', ''U'', listing ''X'' ''Gaming'' ''8.00'')]) ''A:B:C:X'' ''site''
     = Some (AStr ''C'')"
proof (intro conjI)
  show "(''A:B'', ''C'', ''X'') \<noteq> (''A'', ''B:C'', ''X'')" by simp
  show "deal_key ''A:B'' ''C'' ''X'' = deal_key ''A'' ''B:C'' ''X''"
    by (simp add: deal_key_def)
  show "map fst (DAList.impl_of (aggregate DAList.empty
      [(''A:B'', ''C'', ''U'', listing ''X'' ''Beauty'' ''10.00''),
       (''A'', ''B:C'', ''U'', listing ''X'' ''Gaming'' ''8.00'')])) = [''A:B:C:X'']"
    by code_simp
  show "entry_categories (aggregate DAList.empty
      [(''A:B'', ''C'', ''U'', listing ''X'' ''Beauty'' ''10.00''),
       (''A'', ''B:C'', ''U'', listing ''X'' ''Gaming'' ''8.00'')]) ''A:B:C:X''
     = Some (ACats [''Beauty'', ''Gaming''])"
    by code_simp
  show "entry_field (aggregate DAList.empty
      [(''A:B'', ''C'', ''U'', listing ''X'' ''Beauty'' ''10.00''),
       (''A'', ''B:C'', ''U'', listing ''X'' ''Gaming'' ''8.00'')]) ''A:B:C:X'' ''current_price''
     = Some (AStr ''8.00'')"
    by code_simp
  show "entry_field (aggregate DAList.empty
      [(''A:B'', ''C'', ''U'', listing ''X'' ''Beauty'' ''10.00''),
       (''A'', ''B:C'', ''U'', listing ''X'' ''Gaming'' ''8.00'')]) ''A:B:C:X'' ''site''
     = Some (AStr ''C'')"
    by code_simp
qed

text \<open>
  C7 does not hold of the aggregator, for the same reason: the category list is collected
  per key string, not per identity. The identity ("A:B", "C", "X") is observed only under
  "Beauty" and the identity ("A", "B:C", "X") only under "Gaming"; both have the key
  "A:B:C:X", and the one entry found there carries the list ["Beauty", "Gaming"], which is
  the sorted union of the observed categories of neither.
\<close>

theorem collision_mixes_categories:
  "identity_categories
      [(''A:B'', ''C'', ''U'', listing ''X'' ''Beauty'' ''10.00''),
       (''A'', ''B:C'', ''U'', listing ''X'' ''Gaming'' ''8.00'')] (''A:B'', ''C'', ''X'')
     = {''Beauty''} \<and>
   identity_categories
      [(''A:B'', ''C'', ''U'', listing ''X'' ''Beauty'' ''10.00''),
       (''A'', ''B:C'', ''U'', listing ''X'' ''Gaming'' ''8.00'')] (''A'', ''B:C'', ''X'')
     = {''Gaming''} \<and>
   entry_categories (aggregate DAList.empty
      [(''A:B'', ''C'', ''U'', listing ''X'' ''Beauty'' ''10.00''),
       (''A'', ''B:C'', ''U'', listing ''X'' ''Gaming'' ''8.00'')])
      (deal_key ''A:B'' ''C'' ''X'')
     = Some (ACats [''Beauty'', ''Gaming'']) \<and>
   entry_categories (aggregate DAList.empty
      [(''A:B'', ''C'', ''U'', listing ''X'' ''Beauty'' ''10.00''),
       (''A'', ''B:C'', ''U'', listing ''X'' ''Gaming'' ''8.00'')])
      (deal_key ''A'' ''B:C'' ''X'')
     = Some (ACats [''Beauty'', ''Gaming'']) \<and>
   sorted_list_of_set {''Beauty''} \<noteq> [''Beauty'', ''Gaming''] \<and>
   sorted_list_of_set {''Gaming''} \<noteq> [''Beauty'', ''Gaming'']"
proof (intro conjI)
  show "identity_categories
      [(''A:B'', ''C'', ''U'', listing ''X'' ''Beauty'' ''10.00''),
       (''A'', ''B:C'', ''U'', listing ''X'' ''Gaming'' ''8.00'')] (''A:B'', ''C'', ''X'')
     = {''Beauty''}"
    by (simp add: identity_categories_def obs_identity_def obs_category_def listing_def)
  show "identity_categories
      [(''A:B'', ''C'', ''U'', listing ''X'' ''Beauty'' ''10.00''),
       (''A'', ''B:C'', ''U'', listing ''X'' ''Gaming'' ''8.00'')] (''A'', ''B:C'', ''X'')
     = {''Gaming''}"
    by (simp add: identity_categories_def obs_identity_def obs_category_def listing_def)
  show "entry_categories (aggregate DAList.empty
      [(''A:B'', ''C'', ''U'', listing ''X'' ''Beauty'' ''10.00''),
       (''A'', ''B:C'', ''U'', listing ''X'' ''Gaming'' ''8.00'')])
      (deal_key ''A:B'' ''C'' ''X'')
     = Some (ACats [''Beauty'', ''Gaming''])"
    by code_simp
  show "entry_categories (aggregate DAList.empty
      [(''A:B'', ''C'', ''U'', listing ''X'' ''Beauty'' ''10.00''),
       (''A'', ''B:C'', ''U'', listing ''X'' ''Gaming'' ''8.00'')])
      (deal_key ''A'' ''B:C'' ''X'')
     = Some (ACats [''Beauty'', ''Gaming''])"
    by code_simp
  show "sorted_list_of_set {''Beauty''} \<noteq> [''Beauty'', ''Gaming'']" by simp
  show "sorted_list_of_set {''Gaming''} \<noteq> [''Beauty'', ''Gaming'']" by simp
qed

text \<open>
  Where no marketplace identifier and no site name contains a colon, keys and identities
  coincide, and the order of the observations does not matter for the categories of an
  identity: its aggregated category list is the sorted list of the set of category labels
  under which the identity was observed, for every permutation of the observations. A
  field other than the four the aggregator sets itself carries the last present value in
  observation order.
\<close>

theorem identity_categories_order_independent:
  assumes "mset obs = mset obs'"
    and "\<forall>ob \<in> set obs. CHR '':'' \<notin> set (fst ob) \<and> CHR '':'' \<notin> set (fst (snd ob))"
    and "CHR '':'' \<notin> set marketplace_id" and "CHR '':'' \<notin> set site_name"
  shows "entry_categories (aggregate DAList.empty obs) (deal_key marketplace_id site_name asin) =
      entry_categories (aggregate DAList.empty obs') (deal_key marketplace_id site_name asin) \<and>
    entry_categories (aggregate DAList.empty obs) (deal_key marketplace_id site_name asin) =
      (if identity_categories obs (marketplace_id, site_name, asin) = {} then None
       else Some (ACats (sorted_list_of_set
              (identity_categories obs (marketplace_id, site_name, asin))))) \<and>
    (\<forall>b d field earlier later.
      obs = earlier @ (marketplace_id, site_name, b, d) # later \<and>
      DAList.lookup d ''asin'' = Some asin \<and> asin \<noteq> [] \<and> asin \<noteq> ''N/A'' \<and>
      field_present d field \<and>
      field \<notin> {''categories'', ''marketplace_id'', ''site'', ''base_url''} \<and>
      (\<forall>ob \<in> set later. obs_identity ob = Some (marketplace_id, site_name, asin) \<longrightarrow>
          \<not> field_present (snd (snd (snd ob))) field)
      \<longrightarrow> entry_field (aggregate DAList.empty obs) (deal_key marketplace_id site_name asin) field =
            map_option AStr (DAList.lookup d field))"
proof (intro conjI)
  let ?key = "deal_key marketplace_id site_name asin"
  let ?ident = "(marketplace_id, site_name, asin)"
  note oc = observed_categories_identity[OF assms(2,3,4), of asin]
  show "entry_categories (aggregate DAList.empty obs) ?key =
      entry_categories (aggregate DAList.empty obs') ?key"
    using observed_categories_mset[OF assms(1), of ?key] by (simp add: aggregate_categories)
  show "entry_categories (aggregate DAList.empty obs) ?key =
      (if identity_categories obs ?ident = {} then None
       else Some (ACats (sorted_list_of_set (identity_categories obs ?ident))))"
    unfolding oc[symmetric] by (rule aggregate_categories)
  show "\<forall>b d field earlier later.
      obs = earlier @ (marketplace_id, site_name, b, d) # later \<and>
      DAList.lookup d ''asin'' = Some asin \<and> asin \<noteq> [] \<and> asin \<noteq> ''N/A'' \<and>
      field_present d field \<and>
      field \<notin> {''categories'', ''marketplace_id'', ''site'', ''base_url''} \<and>
      (\<forall>ob \<in> set later. obs_identity ob = Some ?ident \<longrightarrow>
          \<not> field_present (snd (snd (snd ob))) field)
      \<longrightarrow> entry_field (aggregate DAList.empty obs) ?key field =
            map_option AStr (DAList.lookup d field)"
  proof (intro allI impI, elim conjE)
    fix b d field earlier later
    assume o: "obs = earlier @ (marketplace_id, site_name, b, d) # later"
      and a: "DAList.lookup d ''asin'' = Some asin" "asin \<noteq> []" "asin \<noteq> ''N/A''"
      and fp: "field_present d field"
      and fr: "field \<notin> {''categories'', ''marketplace_id'', ''site'', ''base_url''}"
      and l: "\<forall>ob \<in> set later. obs_identity ob = Some ?ident \<longrightarrow>
          \<not> field_present (snd (snd (snd ob))) field"
    have k: "obs_key (marketplace_id, site_name, b, d) = Some ?key"
      using a by (simp add: obs_key_def)
    have l': "\<forall>ob \<in> set later. obs_key ob = Some ?key \<longrightarrow>
          \<not> field_present (snd (snd (snd ob))) field"
    proof (intro ballI impI)
      fix ob assume m: "ob \<in> set later" and ok: "obs_key ob = Some ?key"
      from m o have "ob \<in> set obs" by simp
      from obs_key_identity_set[OF assms(2,3,4) this, of asin] ok
      have "obs_identity ob = Some ?ident" by simp
      with l m show "\<not> field_present (snd (snd (snd ob))) field" by blast
    qed
    show "entry_field (aggregate DAList.empty obs) ?key field =
            map_option AStr (DAList.lookup d field)"
      unfolding o by (rule aggregate_last_present[OF k fp fr l'])
  qed
qed

text \<open>The two orders of the observations of ("M", "S", "X") in "Beauty" and in "Gaming"
  aggregate to the same category list, and the price is that of the later observation.\<close>

theorem identity_categories_order_independent_witness:
  "mset [(''M'', ''S'', ''U'', listing ''X'' ''Beauty'' ''10.00''),
         (''M'', ''S'', ''U'', listing ''X'' ''Gaming'' ''8.00'')] =
   mset [(''M'', ''S'', ''U'', listing ''X'' ''Gaming'' ''8.00''),
         (''M'', ''S'', ''U'', listing ''X'' ''Beauty'' ''10.00'')] \<and>
   CHR '':'' \<notin> set ''M'' \<and> CHR '':'' \<notin> set ''S'' \<and>
   identity_categories
        [(''M'', ''S'', ''U'', listing ''X'' ''Beauty'' ''10.00''),
         (''M'', ''S'', ''U'', listing ''X'' ''Gaming'' ''8.00'')] (''M'', ''S'', ''X'')
     = {''Beauty'', ''Gaming''} \<and>
   entry_categories (aggregate DAList.empty
        [(''M'', ''S'', ''U'', listing ''X'' ''Beauty'' ''10.00''),
         (''M'', ''S'', ''U'', listing ''X'' ''Gaming'' ''8.00'')]) (deal_key ''M'' ''S'' ''X'')
     = Some (ACats [''Beauty'', ''Gaming'']) \<and>
   entry_categories (aggregate DAList.empty
        [(''M'', ''S'', ''U'', listing ''X'' ''Gaming'' ''8.00''),
         (''M'', ''S'', ''U'', listing ''X'' ''Beauty'' ''10.00'')]) (deal_key ''M'' ''S'' ''X'')
     = Some (ACats [''Beauty'', ''Gaming'']) \<and>
   entry_field (aggregate DAList.empty
        [(''M'', ''S'', ''U'', listing ''X'' ''Beauty'' ''10.00''),
         (''M'', ''S'', ''U'', listing ''X'' ''Gaming'' ''8.00'')]) (deal_key ''M'' ''S'' ''X'')
        ''current_price''
     = Some (AStr ''8.00'')"
proof -
  let ?a = "(''M'', ''S'', ''U'', listing ''X'' ''Beauty'' ''10.00'')"
  let ?b = "(''M'', ''S'', ''U'', listing ''X'' ''Gaming'' ''8.00'')"
  let ?ident = "(''M'', ''S'', ''X'')"
  let ?key = "deal_key ''M'' ''S'' ''X''"
  have h1: "mset [?a, ?b] = mset [?b, ?a]" by (simp add: add.commute)
  have h2: "\<forall>ob \<in> set [?a, ?b]. CHR '':'' \<notin> set (fst ob) \<and> CHR '':'' \<notin> set (fst (snd ob))"
    by simp
  have h3: "CHR '':'' \<notin> set ''M''" and h4: "CHR '':'' \<notin> set ''S''" by simp_all
  have ic: "identity_categories [?a, ?b] ?ident = {''Beauty'', ''Gaming''}"
    by (simp add: identity_categories_def obs_identity_def obs_category_def listing_def)
  have sl: "sorted_list_of_set {''Beauty'', ''Gaming''} = [''Beauty'', ''Gaming'']"
    by code_simp
  note T = identity_categories_order_independent[OF h1 h2 h3 h4, of "''X''"]
  from T have e1: "entry_categories (aggregate DAList.empty [?a, ?b]) ?key =
      entry_categories (aggregate DAList.empty [?b, ?a]) ?key"
    by (rule conjunct1)
  from T have "entry_categories (aggregate DAList.empty [?a, ?b]) ?key =
      (if identity_categories [?a, ?b] ?ident = {} then None
       else Some (ACats (sorted_list_of_set (identity_categories [?a, ?b] ?ident))))"
    by (rule conjunct2[THEN conjunct1])
  then have e2: "entry_categories (aggregate DAList.empty [?a, ?b]) ?key =
      Some (ACats [''Beauty'', ''Gaming''])"
    unfolding ic sl by simp
  from e1 e2 have e3: "entry_categories (aggregate DAList.empty [?b, ?a]) ?key =
      Some (ACats [''Beauty'', ''Gaming''])"
    by simp
  from T have F: "\<forall>b d field earlier later.
      [?a, ?b] = earlier @ (''M'', ''S'', b, d) # later \<and>
      DAList.lookup d ''asin'' = Some ''X'' \<and> ''X'' \<noteq> [] \<and> ''X'' \<noteq> ''N/A'' \<and>
      field_present d field \<and>
      field \<notin> {''categories'', ''marketplace_id'', ''site'', ''base_url''} \<and>
      (\<forall>ob \<in> set later. obs_identity ob = Some ?ident \<longrightarrow>
          \<not> field_present (snd (snd (snd ob))) field)
      \<longrightarrow> entry_field (aggregate DAList.empty [?a, ?b]) ?key field =
            map_option AStr (DAList.lookup d field)"
    by (rule conjunct2[THEN conjunct2])
  have g: "[?a, ?b] = [?a] @ (''M'', ''S'', ''U'', listing ''X'' ''Gaming'' ''8.00'') # [] \<and>
      DAList.lookup (listing ''X'' ''Gaming'' ''8.00'') ''asin'' = Some ''X'' \<and>
      ''X'' \<noteq> [] \<and> ''X'' \<noteq> ''N/A'' \<and>
      field_present (listing ''X'' ''Gaming'' ''8.00'') ''current_price'' \<and>
      ''current_price'' \<notin> {''categories'', ''marketplace_id'', ''site'', ''base_url''} \<and>
      (\<forall>ob \<in> set []. obs_identity ob = Some ?ident \<longrightarrow>
          \<not> field_present (snd (snd (snd ob))) ''current_price'')"
    by (simp add: listing_def field_present_def)
  from F[rule_format, OF g]
  have e4: "entry_field (aggregate DAList.empty [?a, ?b]) ?key ''current_price'' =
      Some (AStr ''8.00'')"
    by (simp add: listing_def)
  from h1 h3 h4 ic e2 e3 e4 show ?thesis by (intro conjI)
qed

section \<open>The fields of an aggregated listing\<close>

lemma merge_fields_keys:
  "DAList.lookup (merge_fields stored items) f = Some v \<Longrightarrow>
   (\<exists>w. DAList.lookup stored f = Some w) \<or> f \<in> fst ` set items"
  by (induction stored items rule: merge_fields.induct)
    (auto simp: DAList.lookup_update split: if_splits)

lemma merge_observation_keys:
  assumes "DAList.lookup (merge_observation stored c d) f = Some v"
  shows "f = ''categories'' \<or> (\<exists>w. DAList.lookup stored f = Some w) \<or>
         (\<exists>w. DAList.lookup d f = Some w)"
proof -
  from merge_fields_keys[OF assms[unfolded merge_observation_def Let_def]]
  show ?thesis
  proof
    assume "\<exists>w. DAList.lookup
       (DAList.update ''categories''
         (ACats (sorted_list_of_set (insert c
            (case DAList.lookup stored ''categories'' of
               None \<Rightarrow> {}
             | Some v \<Rightarrow> set (elements v))))) stored) f = Some w"
    then show ?thesis by (auto simp: DAList.lookup_update split: if_splits)
  next
    assume "f \<in> fst ` set (DAList.impl_of d)"
    then obtain w where "(f, w) \<in> set (DAList.impl_of d)" by auto
    then have "DAList.lookup d f = Some w" by (rule lookup_member)
    then show ?thesis by blast
  qed
qed

lemma first_observation_keys:
  assumes "DAList.lookup (first_observation m s b c d) f = Some v"
  shows "f \<in> {''categories'', ''marketplace_id'', ''site'', ''base_url''} \<or>
         (\<exists>w. DAList.lookup d f = Some w)"
  using assms
  by (auto simp: first_observation_def DAList.lookup_update lookup_dict_of split: if_splits)

lemma collect_deal_keys_ok:
  assumes "keys_ok P col"
    and "P ''categories''" "P ''marketplace_id''" "P ''site''" "P ''base_url''"
    and "\<forall>f w. DAList.lookup d f = Some w \<longrightarrow> P f"
  shows "keys_ok P (collect_deal m s b col d)"
  unfolding keys_ok_def
proof (intro allI impI)
  fix k e f v
  assume a: "DAList.lookup (collect_deal m s b col d) k = Some e \<and> DAList.lookup e f = Some v"
  show "P f"
  proof (cases "obs_key (m, s, b, d) = Some k")
    case False
    then have "DAList.lookup col k = Some e" using a by (simp add: collect_deal_other_key)
    with assms(1) a show ?thesis unfolding keys_ok_def by blast
  next
    case True
    then obtain asin where asin: "DAList.lookup d ''asin'' = Some asin" "asin \<noteq> []"
      "asin \<noteq> ''N/A''" "k = deal_key m s asin"
      by (auto simp: obs_key_def split: option.splits if_splits)
    have c: "(case DAList.lookup d ''category'' of None \<Rightarrow> ''Unknown'' | Some c \<Rightarrow> c)
        = obs_category (m, s, b, d)"
      by (simp add: obs_category_def)
    have "e = first_observation m s b (obs_category (m, s, b, d)) d \<or>
          (\<exists>stored. DAList.lookup col k = Some stored \<and>
                    e = merge_observation stored (obs_category (m, s, b, d)) d)"
      using a asin c
      by (auto simp: collect_deal_def Let_def split: option.splits if_splits)
    then show ?thesis
    proof
      assume "e = first_observation m s b (obs_category (m, s, b, d)) d"
      with a first_observation_keys[of m s b "obs_category (m, s, b, d)" d f v] assms(2-6)
      show ?thesis by auto
    next
      assume "\<exists>stored. DAList.lookup col k = Some stored \<and>
                    e = merge_observation stored (obs_category (m, s, b, d)) d"
      then obtain stored where st: "DAList.lookup col k = Some stored"
        "e = merge_observation stored (obs_category (m, s, b, d)) d"
        by blast
      from a st(2) merge_observation_keys[of stored "obs_category (m, s, b, d)" d f v]
      have "f = ''categories'' \<or> (\<exists>w. DAList.lookup stored f = Some w) \<or>
         (\<exists>w. DAList.lookup d f = Some w)"
        by simp
      then show ?thesis
        using assms(1,2,6) st(1) unfolding keys_ok_def by blast
    qed
  qed
qed

lemma aggregate_keys_ok:
  assumes "keys_ok P col"
    and "P ''categories''" "P ''marketplace_id''" "P ''site''" "P ''base_url''"
    and "\<forall>ob \<in> set obs. \<forall>f w. DAList.lookup (snd (snd (snd ob))) f = Some w \<longrightarrow> P f"
  shows "keys_ok P (aggregate col obs)"
  using assms(1,6)
proof (induction obs arbitrary: col)
  case Nil
  then show ?case by simp
next
  case (Cons ob obs)
  obtain m s b d where ob: "ob = (m, s, b, d)" by (cases ob) auto
  have "keys_ok P (collect_deal m s b col d)"
    using Cons.prems ob assms(2-5) by (intro collect_deal_keys_ok) auto
  then show ?case using Cons ob by simp
qed

text \<open>A field that no scraped listing carries, and that is none of the four the aggregator
  sets, is not a field of any aggregated listing: so for \<^verbatim>\<open>_id\<close> and \<^verbatim>\<open>first_seen\<close>, which
  \<^verbatim>\<open>parse_promotion\<close> never emits.\<close>

lemma aggregated_listing_keys:
  assumes "f \<notin> {''categories'', ''marketplace_id'', ''site'', ''base_url''}"
    and "\<forall>ob \<in> set (observations scrape sites). DAList.lookup (snd (snd (snd ob))) f = None"
    and "DAList.lookup (snd (scrape_sites scrape DAList.empty sites)) key = Some deal"
  shows "DAList.lookup deal f = None"
proof -
  have "keys_ok (\<lambda>g. g \<noteq> f) (DAList.empty :: (string, deal) alist)"
    by (simp add: keys_ok_def)
  then have "keys_ok (\<lambda>g. g \<noteq> f) (aggregate DAList.empty (observations scrape sites))"
    using assms(1,2) by (intro aggregate_keys_ok) auto
  with assms(3) show ?thesis
    unfolding keys_ok_def scrape_sites_aggregate snd_conv
    by (cases "DAList.lookup deal f") blast+
qed

end
